theory Spec2Isabelle
  imports Complex_Main
begin

section \<open>JavaScript numbers\<close>

text \<open>
  A JavaScript number is an IEEE 754 binary64 value. Two readings of it are used.

  The functions \<open>normalizePhase\<close> and \<open>adaptiveSampleCount\<close> are embedded on the type
  \<open>number\<close> below, with every \<open>+\<close>, \<open>-\<close> and \<open>*\<close> rounded to the nearest double (ties to
  even), overflow to the infinities, and \<open>NaN\<close>: properties of them that speak of all
  inputs or of exact equality depend on that arithmetic.

  The views, the audio envelope, the clock and the remaining signal functions are
  embedded on the reals (\<open>Math.PI\<close> is \<open>pi\<close>, \<open>Math.sin\<close> is \<open>sin\<close>, \<open>Math.max\<close> and
  \<open>Math.min\<close> are \<open>max\<close> and \<open>min\<close>, a decimal literal is the rational it denotes):
  what is proved about them is either stated up to floating tolerance or relates
  values that the code computes by one and the same expression, so that rounding does
  not bear on it.
\<close>

subsection \<open>Rounding to the nearest double\<close>

text \<open>
  \<open>Num x\<close> is the finite number \<open>x\<close>; the doubles are the \<open>x\<close> that \<open>rnd\<close> leaves
  unchanged. The two zeros are one value: no operation used here tells them apart.

  \<open>rnd\<close> rounds an exact result to binary64: \<open>expo x\<close> is the binary exponent of
  \<open>x\<close> (at least -1022, where the subnormal range begins), \<open>ulp x\<close> the spacing of the
  doubles around \<open>x\<close> (53 significant bits), \<open>rval x\<close> the nearest multiple of that
  spacing with ties going to the even multiple, and a result of magnitude \<open>2^1024\<close> or
  more is an infinity.
\<close>

datatype number = Num real | PosInf | NegInf | NaN

definition roundEven :: "real \<Rightarrow> int" where
  "roundEven y =
     (let f = \<lfloor>y\<rfloor>; r = y - of_int f
      in if r < 1 / 2 then f else if 1 / 2 < r then f + 1 else if even f then f else f + 1)"

definition expo :: "real \<Rightarrow> int" where
  "expo x = max \<lfloor>log 2 \<bar>x\<bar>\<rfloor> (- 1022)"

definition ulp :: "real \<Rightarrow> real" where
  "ulp x = 2 powi (expo x - 52)"

definition rval :: "real \<Rightarrow> real" where
  "rval x = of_int (roundEven (x / ulp x)) * ulp x"

definition rnd :: "real \<Rightarrow> number" where
  "rnd x =
     (if x = 0 then Num 0
      else if 2 powi 1024 \<le> rval x then PosInf
      else if rval x \<le> - (2 powi 1024) then NegInf
      else Num (rval x))"

text \<open>\<open>Number.MAX_VALUE\<close>, the largest finite double: \<open>(2^53 - 1) * 2^971\<close>.\<close>

definition MAX_VALUE :: real where
  "MAX_VALUE = 2 powi 1024 - 2 powi 971"

subsection \<open>Operators and \<open>Math\<close> functions\<close>

text \<open>
  \<open>%\<close> is the remainder of the division truncated towards zero (it has the sign of
  the dividend and is exact on doubles); \<open>jsEq\<close> is \<open>===\<close>; \<open>Math.max\<close> and \<open>Math.min\<close>
  return \<open>NaN\<close> as soon as one argument is \<open>NaN\<close>; \<open>Math.ceil\<close> is exact.
\<close>

fun jsNeg :: "number \<Rightarrow> number" where
  "jsNeg (Num x) = Num (- x)"
| "jsNeg PosInf = NegInf"
| "jsNeg NegInf = PosInf"
| "jsNeg NaN = NaN"

fun jsAdd :: "number \<Rightarrow> number \<Rightarrow> number" where
  "jsAdd (Num x) (Num y) = rnd (x + y)"
| "jsAdd NaN _ = NaN"
| "jsAdd _ NaN = NaN"
| "jsAdd PosInf NegInf = NaN"
| "jsAdd NegInf PosInf = NaN"
| "jsAdd PosInf _ = PosInf"
| "jsAdd _ PosInf = PosInf"
| "jsAdd NegInf _ = NegInf"
| "jsAdd _ NegInf = NegInf"

definition jsSub :: "number \<Rightarrow> number \<Rightarrow> number" where
  "jsSub a b = jsAdd a (jsNeg b)"

fun isNegative :: "number \<Rightarrow> bool" where
  "isNegative (Num x) = (x < 0)"
| "isNegative NegInf = True"
| "isNegative _ = False"

fun jsMul :: "number \<Rightarrow> number \<Rightarrow> number" where
  "jsMul (Num x) (Num y) = rnd (x * y)"
| "jsMul NaN _ = NaN"
| "jsMul _ NaN = NaN"
| "jsMul a b =
     (if a = Num 0 \<or> b = Num 0 then NaN
      else if isNegative a = isNegative b then PosInf else NegInf)"

definition trunc :: "real \<Rightarrow> int" where
  "trunc q = (if 0 \<le> q then \<lfloor>q\<rfloor> else \<lceil>q\<rceil>)"

definition fmod :: "real \<Rightarrow> real \<Rightarrow> real" where
  "fmod x y = x - y * of_int (trunc (x / y))"

fun jsRem :: "number \<Rightarrow> number \<Rightarrow> number" where
  "jsRem (Num x) (Num y) = (if y = 0 then NaN else Num (fmod x y))"
| "jsRem (Num x) PosInf = Num x"
| "jsRem (Num x) NegInf = Num x"
| "jsRem _ _ = NaN"

fun jsEq :: "number \<Rightarrow> number \<Rightarrow> bool" where
  "jsEq (Num x) (Num y) = (x = y)"
| "jsEq PosInf PosInf = True"
| "jsEq NegInf NegInf = True"
| "jsEq _ _ = False"

fun jsLess :: "number \<Rightarrow> number \<Rightarrow> bool" where
  "jsLess (Num x) (Num y) = (x < y)"
| "jsLess NaN _ = False"
| "jsLess _ NaN = False"
| "jsLess PosInf _ = False"
| "jsLess _ NegInf = False"
| "jsLess NegInf _ = True"
| "jsLess _ PosInf = True"

definition Math_max :: "number \<Rightarrow> number \<Rightarrow> number" where
  "Math_max a b = (if a = NaN \<or> b = NaN then NaN else if jsLess a b then b else a)"

definition Math_min :: "number \<Rightarrow> number \<Rightarrow> number" where
  "Math_min a b = (if a = NaN \<or> b = NaN then NaN else if jsLess b a then b else a)"

fun Math_ceil :: "number \<Rightarrow> number" where
  "Math_ceil (Num x) = Num (of_int \<lceil>x\<rceil>)"
| "Math_ceil v = v"

text \<open>\<open>Math.PI\<close>, the double nearest to \<open>\<pi>\<close>: 3.141592653589793115997963...\<close>

definition Math_PI :: real where
  "Math_PI = 884279719003555 / 2 ^ 48"

section \<open>Signal model (src/math/signal.ts)\<close>

record SignalParams =
  amplitude :: real
  frequency :: real
  phaseRad :: real

definition MIN_AMPLITUDE :: real where "MIN_AMPLITUDE = 0"
definition MAX_AMPLITUDE :: real where "MAX_AMPLITUDE = 5"
definition MIN_VISUAL_FREQUENCY :: real where "MIN_VISUAL_FREQUENCY = 1 / 10"
definition MAX_VISUAL_FREQUENCY :: real where "MAX_VISUAL_FREQUENCY = 20"
definition MIN_AUDIO_FREQUENCY :: real where "MIN_AUDIO_FREQUENCY = 20"
definition MAX_AUDIO_FREQUENCY :: real where "MAX_AUDIO_FREQUENCY = 2000"
definition MIN_WINDOW_SECONDS :: real where "MIN_WINDOW_SECONDS = 1"
definition MAX_WINDOW_SECONDS :: real where "MAX_WINDOW_SECONDS = 10"
definition DEFAULT_WINDOW_SECONDS :: real where "DEFAULT_WINDOW_SECONDS = 2"

definition DEFAULT_SIGNAL_1 :: SignalParams where
  "DEFAULT_SIGNAL_1 = \<lparr>amplitude = 1, frequency = 1, phaseRad = 0\<rparr>"

definition DEFAULT_SIGNAL_2 :: SignalParams where
  "DEFAULT_SIGNAL_2 = \<lparr>amplitude = 1, frequency = 1, phaseRad = pi / 2\<rparr>"

definition clamp :: "real \<Rightarrow> real \<Rightarrow> real \<Rightarrow> real" where
  "clamp v lo hi = min hi (max lo v)"

definition normalizePhase :: "number \<Rightarrow> number" where
  "normalizePhase phi =
     (let tau = jsMul (Num 2) (Num Math_PI);
          wrapped = jsSub (jsRem (jsAdd (jsRem (jsAdd phi (Num Math_PI)) tau) tau) tau)
                      (Num Math_PI)
      in if jsEq wrapped (jsNeg (Num Math_PI)) then Num Math_PI else wrapped)"

definition thetaAt :: "real \<Rightarrow> SignalParams \<Rightarrow> real" where
  "thetaAt tSec signal = 2 * pi * frequency signal * tSec + phaseRad signal"

definition signalAt :: "real \<Rightarrow> SignalParams \<Rightarrow> real" where
  "signalAt tSec signal = amplitude signal * sin (thetaAt tSec signal)"

definition periodFromFrequency :: "real \<Rightarrow> real" where
  "periodFromFrequency frequencyHz =
     (let safeFreq = max frequencyHz (1 / 10 ^ 6) in 1 / safeFreq)"

definition angularFrequency :: "real \<Rightarrow> real" where
  "angularFrequency frequencyHz = 2 * pi * frequencyHz"

definition timeShiftFromPhase :: "real \<Rightarrow> real \<Rightarrow> real" where
  "timeShiftFromPhase phi frequencyHz =
     (let safeFreq = max frequencyHz (1 / 10 ^ 6) in - phi / angularFrequency safeFreq)"

definition phaseDifferenceRad :: "number \<Rightarrow> number \<Rightarrow> number" where
  "phaseDifferenceRad phi1 phi2 = normalizePhase (jsSub phi2 phi1)"

text \<open>
  \<open>adaptiveSampleCount\<close> on the reals, as the waveform view below uses it; \<open>ceil\<close> is
  \<open>Math.ceil\<close> there.
\<close>

definition ceil :: "real \<Rightarrow> real" where
  "ceil x = of_int \<lceil>x\<rceil>"

definition byFrequency :: "real \<Rightarrow> real \<Rightarrow> real" where
  "byFrequency maxFrequencyHz windowSeconds =
     (let kSamplesPerCycleWindow = 220
      in ceil (kSamplesPerCycleWindow * max maxFrequencyHz MIN_VISUAL_FREQUENCY * windowSeconds))"

definition byPixels :: "real \<Rightarrow> real" where
  "byPixels pixelWidth = ceil (pixelWidth * (16 / 10))"

definition minSamples :: real where "minSamples = 320"
definition maxSamples :: real where "maxSamples = 12000"

definition adaptiveSampleCount :: "real \<Rightarrow> real \<Rightarrow> real \<Rightarrow> real" where
  "adaptiveSampleCount maxFrequencyHz windowSeconds pixelWidth =
     clamp (max minSamples (max (byFrequency maxFrequencyHz windowSeconds) (byPixels pixelWidth)))
       minSamples maxSamples"

text \<open>
  The same function on doubles, with the literals \<open>0.1\<close> and \<open>1.6\<close> as the doubles they
  denote. It decides what \<open>adaptiveSampleCount\<close> returns for arbitrary numbers; the real
  reading above agrees with it wherever no product overflows, up to the rounding of the
  two products.
\<close>

definition clamp_ieee :: "number \<Rightarrow> number \<Rightarrow> number \<Rightarrow> number" where
  "clamp_ieee v lo hi = Math_min hi (Math_max lo v)"

definition MIN_VISUAL_FREQUENCY_ieee :: number where
  "MIN_VISUAL_FREQUENCY_ieee = Num (3602879701896397 / 2 ^ 55)"

definition adaptiveSampleCount_ieee :: "number \<Rightarrow> number \<Rightarrow> number \<Rightarrow> number" where
  "adaptiveSampleCount_ieee maxFrequencyHz windowSeconds pixelWidth =
     (let kSamplesPerCycleWindow = Num 220;
          byFrequency = Math_ceil (jsMul
            (jsMul kSamplesPerCycleWindow (Math_max maxFrequencyHz MIN_VISUAL_FREQUENCY_ieee))
            windowSeconds);
          byPixels = Math_ceil (jsMul pixelWidth (Num (3602879701896397 / 2 ^ 51)));
          minSamples = Num 320;
          maxSamples = Num 12000
      in clamp_ieee (Math_max (Math_max minSamples byFrequency) byPixels) minSamples maxSamples)"

text \<open>
  The optional second signal is an \<open>option\<close>; the two flags default to \<open>False\<close> at
  the call sites that omit them.
\<close>

definition maxDisplayedAmplitude ::
  "SignalParams \<Rightarrow> SignalParams option \<Rightarrow> bool \<Rightarrow> bool \<Rightarrow> real" where
  "maxDisplayedAmplitude signal1 signal2 showSum showDiff =
     (let maxValue = max 1 (amplitude signal1)
      in case signal2 of
           None \<Rightarrow> maxValue
         | Some s2 \<Rightarrow>
             (let maxValue1 = max maxValue (amplitude s2);
                  maxValue2 = (if showSum
                               then max maxValue1 (amplitude signal1 + amplitude s2)
                               else maxValue1);
                  maxValue3 = (if showDiff
                               then max maxValue2 (amplitude signal1 + amplitude s2)
                               else maxValue2)
              in maxValue3))"

section \<open>Waveform view (TimePlotCanvas)\<close>

record Viewport =
  width :: real
  height :: real
  dpr :: real

text \<open>
  The viewport state starts at 640 by 320 and is replaced by \<open>resize\<close>, from the
  wrapper's rectangle and \<open>window.devicePixelRatio || 1\<close>.
\<close>

definition initialViewport :: Viewport where
  "initialViewport = \<lparr>width = 640, height = 320, dpr = 1\<rparr>"

definition floor_js :: "real \<Rightarrow> real" where
  "floor_js x = of_int \<lfloor>x\<rfloor>"

definition resize :: "real \<Rightarrow> real \<Rightarrow> real \<Rightarrow> Viewport" where
  "resize rectWidth rectHeight devicePixelRatio =
     \<lparr>width = max 280 (floor_js rectWidth),
      height = max 220 (floor_js rectHeight),
      dpr = (if devicePixelRatio = 0 then 1 else devicePixelRatio)\<rparr>"

definition PADDING_left :: real where "PADDING_left = 56"
definition PADDING_right :: real where "PADDING_right = 16"
definition PADDING_top :: real where "PADDING_top = 18"
definition PADDING_bottom :: real where "PADDING_bottom = 38"

text \<open>
  The five sample buffers live in refs and survive from one frame to the next. A
  \<open>Float32Array\<close> is modelled as a list of reals (the rounding of a stored value to
  single precision is outside the model); a fresh array is filled with zeros, and a
  write beyond the end of a typed array is ignored, as \<open>xs[i := v]\<close> is.
\<close>

record PlotBuffers =
  timeBufferRef :: "real list"
  y1BufferRef :: "real list"
  y2BufferRef :: "real list"
  sumBufferRef :: "real list"
  diffBufferRef :: "real list"

definition ensureCapacity :: "real list \<Rightarrow> real \<Rightarrow> real list" where
  "ensureCapacity buffer targetLength =
     (if targetLength \<le> real (length buffer) then buffer
      else replicate (nat \<lfloor>targetLength\<rfloor>) 0)"

text \<open>The sampling loop \<open>for (let i = 0; i < sampleCount; i += 1)\<close>, entered at \<open>i\<close>.\<close>

function sampleLoop ::
  "nat \<Rightarrow> real \<Rightarrow> real \<Rightarrow> real \<Rightarrow> real \<Rightarrow> SignalParams \<Rightarrow> SignalParams
   \<Rightarrow> PlotBuffers \<Rightarrow> PlotBuffers" where
  "sampleLoop i sampleCount tStart invSample windowSec signal1 signal2 b =
     (if real i < sampleCount then
        (let t = tStart + real i * invSample * windowSec;
             y1 = signalAt t signal1;
             y2 = signalAt t signal2
         in sampleLoop (Suc i) sampleCount tStart invSample windowSec signal1 signal2
              (b\<lparr>timeBufferRef := (timeBufferRef b)[i := t],
                 y1BufferRef := (y1BufferRef b)[i := y1],
                 y2BufferRef := (y2BufferRef b)[i := y2],
                 sumBufferRef := (sumBufferRef b)[i := y1 + y2],
                 diffBufferRef := (diffBufferRef b)[i := y1 - y2]\<rparr>))
      else b)"
  by pat_completeness auto
termination
  by (relation "measure (\<lambda>(i, sampleCount, _). nat \<lceil>sampleCount\<rceil> - i)") (auto, linarith)

declare sampleLoop.simps [simp del]

text \<open>
  The drawing effect up to the end of the sampling loop, for a mounted canvas with a 2d
  context: \<open>None\<close> when the effect returns early because the plot area is too small,
  otherwise the sample count of this frame and the refilled buffers.
\<close>

definition sampleWaveform ::
  "real \<Rightarrow> real \<Rightarrow> SignalParams \<Rightarrow> SignalParams \<Rightarrow> bool \<Rightarrow> Viewport \<Rightarrow> PlotBuffers
   \<Rightarrow> (real \<times> PlotBuffers) option" where
  "sampleWaveform tNow windowSec signal1 signal2 compareMode viewport b =
     (let plotWidth = width viewport - PADDING_left - PADDING_right;
          plotHeight = height viewport - PADDING_top - PADDING_bottom
      in if plotWidth \<le> 16 \<or> plotHeight \<le> 16 then None
         else
           (let maxFrequency = (if compareMode
                                then max (frequency signal1) (frequency signal2)
                                else frequency signal1);
                sampleCount = adaptiveSampleCount maxFrequency windowSec plotWidth;
                tStart = tNow - windowSec;
                invSample = (if 1 < sampleCount then 1 / (sampleCount - 1) else 1);
                b1 = b\<lparr>timeBufferRef := ensureCapacity (timeBufferRef b) sampleCount,
                       y1BufferRef := ensureCapacity (y1BufferRef b) sampleCount,
                       y2BufferRef := ensureCapacity (y2BufferRef b) sampleCount,
                       sumBufferRef := ensureCapacity (sumBufferRef b) sampleCount,
                       diffBufferRef := ensureCapacity (diffBufferRef b) sampleCount\<rparr>
            in Some (sampleCount,
                 sampleLoop 0 sampleCount tStart invSample windowSec signal1 signal2 b1)))"

text \<open>
  Reading a typed array at a number: \<open>None\<close> stands for \<open>undefined\<close>, the result for
  an index that is negative, not an integer or beyond the end.
\<close>

definition typedArrayGet :: "real list \<Rightarrow> real \<Rightarrow> real option" where
  "typedArrayGet buffer index =
     (if 0 \<le> index \<and> of_int \<lfloor>index\<rfloor> = index \<and> nat \<lfloor>index\<rfloor> < length buffer
      then Some (buffer ! nat \<lfloor>index\<rfloor>) else None)"

text \<open>
  The value behind the marker and the \<open>x(t_now)\<close> label of the waveform:
  \<open>y1BufferRef.current[sampleCount - 1]\<close>; \<open>None\<close> when nothing is drawn or the read
  is \<open>undefined\<close>.
\<close>

definition waveformLastSample ::
  "real \<Rightarrow> real \<Rightarrow> SignalParams \<Rightarrow> SignalParams \<Rightarrow> bool \<Rightarrow> Viewport \<Rightarrow> PlotBuffers
   \<Rightarrow> real option" where
  "waveformLastSample tNow windowSec signal1 signal2 compareMode viewport b =
     (case sampleWaveform tNow windowSec signal1 signal2 compareMode viewport b of
        None \<Rightarrow> None
      | Some (sampleCount, b') \<Rightarrow> typedArrayGet (y1BufferRef b') (sampleCount - 1))"

section \<open>Phasor view (PhasorCanvas)\<close>

text \<open>The two phasor vectors \<open>((v1x, v1y), (v2x, v2y))\<close> of a frame.\<close>

definition phasorVectors ::
  "real \<Rightarrow> SignalParams \<Rightarrow> SignalParams \<Rightarrow> (real \<times> real) \<times> (real \<times> real)" where
  "phasorVectors tNow signal1 signal2 =
     (let theta1 = thetaAt tNow signal1;
          v1x = amplitude signal1 * cos theta1;
          v1y = amplitude signal1 * sin theta1;
          theta2 = thetaAt tNow signal2;
          v2x = amplitude signal2 * cos theta2;
          v2y = amplitude signal2 * sin theta2
      in ((v1x, v1y), (v2x, v2y)))"

definition phasorV1y :: "real \<Rightarrow> SignalParams \<Rightarrow> SignalParams \<Rightarrow> real" where
  "phasorV1y tNow signal1 signal2 = snd (fst (phasorVectors tNow signal1 signal2))"

section \<open>Audio hook (src/audio/useWebAudioSine.ts)\<close>

definition MAX_GAIN :: real where "MAX_GAIN = 2 / 10"
definition RAMP_SECONDS :: real where "RAMP_SECONDS = 3 / 100"

text \<open>
  An \<open>AudioParam\<close> is the list of automation calls made on it, oldest first. The
  audio clock \<open>audioContext.currentTime\<close> is an input of every operation that reads it.
\<close>

datatype ParamEvent =
    SetValueAtTime real real
  | SetTargetAtTime real real real
  | CancelScheduledValues real

record OscillatorNode =
  frequencyParam :: "ParamEvent list"
  startTime :: real

record GainNode =
  gainParam :: "ParamEvent list"

datatype AudioContext = AudioContext

record AudioState =
  isStarted :: bool
  error :: "string option"
  contextRef :: "AudioContext option"
  oscillatorRef :: "OscillatorNode option"
  gainRef :: "GainNode option"

definition initialAudio :: AudioState where
  "initialAudio = \<lparr>isStarted = False, error = None, contextRef = None,
                    oscillatorRef = None, gainRef = None\<rparr>"

text \<open>
  \<open>cleanupNodes\<close> stops and disconnects the live pair and forgets it; the state keeps
  only the nodes the refs point to.
\<close>

definition cleanupNodes :: "AudioState \<Rightarrow> AudioState" where
  "cleanupNodes s =
     (case contextRef s of
        None \<Rightarrow> s
      | Some _ \<Rightarrow> s\<lparr>oscillatorRef := None, gainRef := None\<rparr>)"

definition stop :: "real \<Rightarrow> AudioState \<Rightarrow> AudioState" where
  "stop now s =
     (let s1 = (case (contextRef s, gainRef s) of
                  (Some _, Some g) \<Rightarrow>
                    s\<lparr>gainRef := Some (g\<lparr>gainParam := gainParam g
                          @ [CancelScheduledValues now, SetTargetAtTime 0 now RAMP_SECONDS]\<rparr>)\<rparr>
                | _ \<Rightarrow> s)
      in (cleanupNodes s1)\<lparr>isStarted := False\<rparr>)"

text \<open>The two local constants computed by \<open>start\<close> and by the update effect.\<close>

definition safeFrequency :: "real \<Rightarrow> real" where
  "safeFrequency freq = clamp freq MIN_AUDIO_FREQUENCY MAX_AUDIO_FREQUENCY"

definition safeGain :: "real \<Rightarrow> real" where
  "safeGain amp = clamp (amp / MAX_AMPLITUDE) 0 1 * MAX_GAIN"

text \<open>
  The hook's arguments \<open>amplitude\<close> and \<open>frequency\<close> are the parameters \<open>amp\<close> and
  \<open>freq\<close> (the record fields of the signal hold the longer names).
  \<open>start\<close>: the flag \<open>canCreate\<close> says whether \<open>new AudioContext()\<close> succeeds; when
  it throws, the \<open>catch\<close> branch runs. A context that exists already is reused.
\<close>

definition start :: "bool \<Rightarrow> real \<Rightarrow> real \<Rightarrow> real \<Rightarrow> AudioState \<Rightarrow> AudioState" where
  "start canCreate now amp freq s =
     (if contextRef s = None \<and> \<not> canCreate then
        s\<lparr>isStarted := False,
          error := Some ''Audio could not be started in this browser.''\<rparr>
      else
        (let s1 = cleanupNodes (s\<lparr>contextRef := Some AudioContext\<rparr>);
             oscillator = \<lparr>frequencyParam = [SetValueAtTime (safeFrequency freq) now],
                           startTime = now\<rparr>;
             gainNode = \<lparr>gainParam = [SetValueAtTime 0 now,
                           SetTargetAtTime (safeGain amp) now RAMP_SECONDS]\<rparr>
         in s1\<lparr>oscillatorRef := Some oscillator, gainRef := Some gainNode,
               isStarted := True, error := None\<rparr>))"

text \<open>The effect that stops the audio when the host disables it.\<close>

definition disableEffect :: "bool \<Rightarrow> real \<Rightarrow> AudioState \<Rightarrow> AudioState" where
  "disableEffect enabled now s = (if \<not> enabled \<and> isStarted s then stop now s else s)"

text \<open>The effect that follows every change of amplitude, frequency, enabled or isStarted.\<close>

definition updateEffect :: "bool \<Rightarrow> real \<Rightarrow> real \<Rightarrow> real \<Rightarrow> AudioState \<Rightarrow> AudioState" where
  "updateEffect enabled now amp freq s =
     (if \<not> isStarted s \<or> \<not> enabled then s
      else
        (case (contextRef s, oscillatorRef s, gainRef s) of
           (Some _, Some oscillator, Some gainNode) \<Rightarrow>
             s\<lparr>oscillatorRef := Some (oscillator\<lparr>frequencyParam := frequencyParam oscillator
                   @ [CancelScheduledValues now,
                      SetTargetAtTime (safeFrequency freq) now RAMP_SECONDS]\<rparr>),
               gainRef := Some (gainNode\<lparr>gainParam := gainParam gainNode
                   @ [CancelScheduledValues now,
                      SetTargetAtTime (safeGain amp) now RAMP_SECONDS]\<rparr>)\<rparr>
         | _ \<Rightarrow> s))"

section \<open>Application state and simulation clock (src/App.tsx)\<close>

datatype PhaseUnit = Rad | Deg
datatype HighlightKey = Amplitude | Frequency | Phase | Window
datatype PhaseShiftDirection = ShiftLeft | ShiftRight

record AppState =
  signal1 :: SignalParams
  signal2 :: SignalParams
  windowSec :: real
  compareMode :: bool
  lockSignal1 :: bool
  showSum :: bool
  showDiff :: bool
  showSpectrum :: bool
  phaseUnit :: PhaseUnit
  isPlaying :: bool
  tNow :: real
  simTimeRef :: real
  lastRafMsRef :: "real option"
  lastChanged :: "HighlightKey option"
  phaseShiftDirection :: "PhaseShiftDirection option"
  audioMode :: bool
  audioFrequency :: real
  audio :: AudioState

definition initialApp :: AppState where
  "initialApp =
     \<lparr>signal1 = DEFAULT_SIGNAL_1, signal2 = DEFAULT_SIGNAL_2,
      windowSec = DEFAULT_WINDOW_SECONDS, compareMode = False, lockSignal1 = True,
      showSum = True, showDiff = False, showSpectrum = False, phaseUnit = Rad,
      isPlaying = True, tNow = 0, simTimeRef = 0, lastRafMsRef = None,
      lastChanged = None, phaseShiftDirection = None,
      audioMode = False, audioFrequency = MIN_AUDIO_FREQUENCY, audio = initialAudio\<rparr>"

text \<open>
  The per-frame callback \<open>tick\<close>. It is registered by the effect on \<open>isPlaying\<close> and
  cancelled by that effect's cleanup, so the host delivers a frame to it exactly while
  \<open>isPlaying\<close> holds: \<open>frame\<close> is one animation frame of the host.
\<close>

definition tick :: "real \<Rightarrow> AppState \<Rightarrow> AppState" where
  "tick nowMs c =
     (let c1 = (case lastRafMsRef c of
                  Some lastMs \<Rightarrow> c\<lparr>simTimeRef := simTimeRef c + (nowMs - lastMs) / 1000\<rparr>
                | None \<Rightarrow> c);
          c2 = c1\<lparr>lastRafMsRef := Some nowMs\<rparr>
      in c2\<lparr>tNow := simTimeRef c2\<rparr>)"

definition frame :: "real \<Rightarrow> AppState \<Rightarrow> AppState" where
  "frame nowMs c = (if isPlaying c then tick nowMs c else c)"

text \<open>
  The body of the effect on \<open>isPlaying\<close>, run when that value has changed: paused, it
  drops the stored timestamp; playing, it only registers the callback.
\<close>

definition playingEffect :: "AppState \<Rightarrow> AppState" where
  "playingEffect c = (if \<not> isPlaying c then c\<lparr>lastRafMsRef := None\<rparr> else c)"

definition setIsPlaying :: "bool \<Rightarrow> AppState \<Rightarrow> AppState" where
  "setIsPlaying v c =
     (if isPlaying c = v then c else playingEffect (c\<lparr>isPlaying := v\<rparr>))"

definition onPlayPause :: "AppState \<Rightarrow> AppState" where
  "onPlayPause c = setIsPlaying (\<not> isPlaying c) c"

definition handleReset :: "real \<Rightarrow> AppState \<Rightarrow> AppState" where
  "handleReset audioNow c =
     setIsPlaying True
       (c\<lparr>signal1 := DEFAULT_SIGNAL_1, signal2 := DEFAULT_SIGNAL_2,
          windowSec := DEFAULT_WINDOW_SECONDS, compareMode := False, lockSignal1 := True,
          showSum := True, showDiff := False, showSpectrum := False, phaseUnit := Rad,
          lastChanged := None, phaseShiftDirection := None,
          audioMode := False, audioFrequency := MIN_AUDIO_FREQUENCY,
          audio := stop audioNow (audio c),
          simTimeRef := 0, lastRafMsRef := None, tNow := 0\<rparr>)"

section \<open>Properties of rounding\<close>

lemma roundEven_err: "\<bar>of_int (roundEven y) - y\<bar> \<le> 1 / 2"
  unfolding roundEven_def Let_def by (auto; linarith)

lemma roundEven_ge: "of_int M \<le> y \<Longrightarrow> M \<le> roundEven y"
proof -
  assume "of_int M \<le> y"
  then have "M \<le> \<lfloor>y\<rfloor>" by (simp add: le_floor_iff)
  then show ?thesis unfolding roundEven_def Let_def by auto
qed

lemma roundEven_le: "y \<le> of_int M \<Longrightarrow> roundEven y \<le> M"
proof (cases "y = of_int M")
  case True
  then show ?thesis unfolding roundEven_def Let_def by simp
next
  case False
  assume "y \<le> of_int M"
  with False have "y < of_int M" by simp
  then have "\<lfloor>y\<rfloor> < M" by (simp add: floor_less_iff)
  then show ?thesis unfolding roundEven_def Let_def by auto
qed

lemma roundEven_near: "\<bar>y - of_int m\<bar> < 1 / 2 \<Longrightarrow> roundEven y = m"
proof -
  assume a: "\<bar>y - of_int m\<bar> < 1 / 2"
  show ?thesis
  proof (cases "of_int m \<le> y")
    case True
    then have "\<lfloor>y\<rfloor> = m" using a by (simp add: floor_eq_iff)
    then show ?thesis using a True unfolding roundEven_def Let_def by auto
  next
    case False
    then have "\<lfloor>y\<rfloor> = m - 1" using a by (simp add: floor_eq_iff)
    then show ?thesis using a False unfolding roundEven_def Let_def by auto
  qed
qed


lemma roundEven_tie_down: "y = of_int m + 1 / 2 \<Longrightarrow> even m \<Longrightarrow> roundEven y = m"
proof -
  assume a: "y = of_int m + 1 / 2" and e: "even m"
  have "\<lfloor>y\<rfloor> = m" using a by (simp add: floor_eq_iff)
  then show ?thesis using a e unfolding roundEven_def Let_def by auto
qed

lemma powi_pos: "0 < (2::real) powi k"
  by (simp add: power_int_def)

lemma powr_powi: "(2::real) powr (real_of_int j) = 2 powi j"
  by (simp add: powr_real_of_int')

lemma powr_powi_Suc: "(2::real) powr (real_of_int j + 1) = 2 powi (j + 1)"
  using powr_powi [of "j + 1"] by simp

lemma floor_log2_bounds:
  assumes "x \<noteq> 0"
  shows "2 powi \<lfloor>log 2 \<bar>x\<bar>\<rfloor> \<le> \<bar>x\<bar>" "\<bar>x\<bar> < 2 powi (\<lfloor>log 2 \<bar>x\<bar>\<rfloor> + 1)"
proof -
  have pos: "0 < \<bar>x\<bar>" using assms by simp
  have "2 powr (real_of_int \<lfloor>log 2 \<bar>x\<bar>\<rfloor>) \<le> \<bar>x\<bar> \<and> \<bar>x\<bar> < 2 powr (real_of_int \<lfloor>log 2 \<bar>x\<bar>\<rfloor> + 1)"
    using floor_log_eq_powr_iff[OF pos, of 2 "\<lfloor>log 2 \<bar>x\<bar>\<rfloor>"] by simp
  then show "2 powi \<lfloor>log 2 \<bar>x\<bar>\<rfloor> \<le> \<bar>x\<bar>" "\<bar>x\<bar> < 2 powi (\<lfloor>log 2 \<bar>x\<bar>\<rfloor> + 1)"
    by (simp_all only: powr_powi powr_powi_Suc)
qed

lemma floor_log2_eq:
  assumes "2 powi k \<le> \<bar>x\<bar>" "\<bar>x\<bar> < 2 powi (k + 1)"
  shows "\<lfloor>log 2 \<bar>x\<bar>\<rfloor> = k"
proof -
  have pos: "0 < \<bar>x\<bar>" using assms(1) powi_pos[of k] by linarith
  have "2 powr (real_of_int k) \<le> \<bar>x\<bar> \<and> \<bar>x\<bar> < 2 powr (real_of_int k + 1)"
    using assms by (simp only: powr_powi powr_powi_Suc)
  then show ?thesis using floor_log_eq_powr_iff[OF pos, of 2 k] by simp
qed

lemma powi_mono: "j \<le> k \<Longrightarrow> (2::real) powi j \<le> 2 powi k"
  by (rule power_int_increasing) simp_all

lemma powi_strict_mono: "j < k \<Longrightarrow> (2::real) powi j < 2 powi k"
  by (rule power_int_strict_increasing) simp_all

lemma powi_less_imp: "(2::real) powi j < 2 powi k \<Longrightarrow> j < k"
  using powi_mono [of k j] by (cases "j < k") simp_all

lemma powi_split: "(2::real) powi (j + k) = 2 powi j * 2 powi k"
  by (rule power_int_add) simp

lemma powi_Suc: "(2::real) powi (k + 1) = 2 * 2 powi k"
  by (simp add: powi_split)

lemma powi_pred: "(2::real) powi (k - 1) = 2 powi k / 2"
  using powi_Suc [of "k - 1"] by simp

lemma expo_ge: "- 1022 \<le> expo x"
  by (simp add: expo_def)

lemma expo_upper: "x \<noteq> 0 \<Longrightarrow> \<bar>x\<bar> < 2 powi (expo x + 1)"
proof -
  assume "x \<noteq> 0"
  then have "\<bar>x\<bar> < 2 powi (\<lfloor>log 2 \<bar>x\<bar>\<rfloor> + 1)" by (rule floor_log2_bounds)
  also have "\<dots> \<le> 2 powi (expo x + 1)" by (rule powi_mono) (simp add: expo_def)
  finally show ?thesis .
qed

lemma expo_le: "x \<noteq> 0 \<Longrightarrow> \<bar>x\<bar> < 2 powi (k + 1) \<Longrightarrow> - 1022 \<le> k \<Longrightarrow> expo x \<le> k"
proof -
  assume x: "x \<noteq> 0" and b: "\<bar>x\<bar> < 2 powi (k + 1)" and k: "- 1022 \<le> k"
  have "2 powi \<lfloor>log 2 \<bar>x\<bar>\<rfloor> \<le> \<bar>x\<bar>" using x by (rule floor_log2_bounds)
  then have "(2::real) powi \<lfloor>log 2 \<bar>x\<bar>\<rfloor> < 2 powi (k + 1)" using b by simp
  then have "\<lfloor>log 2 \<bar>x\<bar>\<rfloor> < k + 1" by (rule powi_less_imp)
  then show ?thesis using k by (simp add: expo_def)
qed

lemma expo_normal: "x \<noteq> 0 \<Longrightarrow> - 1022 < expo x \<Longrightarrow> 2 powi (expo x) \<le> \<bar>x\<bar>"
proof -
  assume x: "x \<noteq> 0" and n: "- 1022 < expo x"
  then have "expo x = \<lfloor>log 2 \<bar>x\<bar>\<rfloor>" by (simp add: expo_def max_def split: if_splits)
  then show ?thesis using floor_log2_bounds(1) [OF x] by simp
qed

lemma expo_eq:
  "2 powi k \<le> \<bar>x\<bar> \<Longrightarrow> \<bar>x\<bar> < 2 powi (k + 1) \<Longrightarrow> - 1022 \<le> k \<Longrightarrow> expo x = k"
  by (simp add: expo_def floor_log2_eq)

lemma expo_ge_pow: "x \<noteq> 0 \<Longrightarrow> 2 powi k \<le> \<bar>x\<bar> \<Longrightarrow> k \<le> expo x"
proof -
  assume x: "x \<noteq> 0" and b: "2 powi k \<le> \<bar>x\<bar>"
  have "(2::real) powi k < 2 powi (expo x + 1)" using b expo_upper [OF x] by simp
  then have "k < expo x + 1" by (rule powi_less_imp)
  then show ?thesis by simp
qed

lemma ulp_pos: "0 < ulp x"
  by (simp add: ulp_def powi_pos)

lemma rval_zero: "rval 0 = 0"
  by (simp add: rval_def roundEven_def)

lemma rval_err: "\<bar>rval x - x\<bar> \<le> ulp x / 2"
proof -
  have u: "0 < ulp x" by (rule ulp_pos)
  have "rval x - x = (of_int (roundEven (x / ulp x)) - x / ulp x) * ulp x"
    using u by (simp add: rval_def algebra_simps)
  then have "\<bar>rval x - x\<bar> = \<bar>of_int (roundEven (x / ulp x)) - x / ulp x\<bar> * ulp x"
    using u by (simp add: abs_mult)
  also have "\<dots> \<le> (1 / 2) * ulp x"
    using u roundEven_err [of "x / ulp x"] by (intro mult_right_mono) simp_all
  finally show ?thesis by simp
qed

lemma grid_multiple:
  assumes "e \<le> k"
  shows "(of_int m :: real) * 2 powi (k - 52) = of_int (m * 2 ^ nat (k - e)) * 2 powi (e - 52)"
proof -
  have "(2::real) powi (k - 52) = 2 powi ((k - e) + (e - 52))" by simp
  also have "\<dots> = 2 powi (k - e) * 2 powi (e - 52)" by (rule powi_split)
  also have "(2::real) powi (k - e) = 2 ^ nat (k - e)" using assms by (simp add: power_int_def)
  finally show ?thesis by simp
qed

lemma rval_le_grid:
  assumes "x \<le> of_int m * 2 powi (k - 52)" "expo x \<le> k"
  shows "rval x \<le> of_int m * 2 powi (k - 52)"
proof -
  define M where "M = m * 2 ^ nat (k - expo x)"
  have h: "of_int m * 2 powi (k - 52) = of_int M * ulp x"
    unfolding M_def ulp_def using assms(2) by (rule grid_multiple)
  have u: "0 < ulp x" by (rule ulp_pos)
  have "x / ulp x \<le> of_int M" using assms(1) u by (simp add: h pos_divide_le_eq)
  then have "roundEven (x / ulp x) \<le> M" by (rule roundEven_le)
  then have "of_int (roundEven (x / ulp x)) * ulp x \<le> of_int M * ulp x"
    using u by (intro mult_right_mono) simp_all
  then show ?thesis by (simp add: rval_def h)
qed

lemma rval_ge_grid:
  assumes "of_int m * 2 powi (k - 52) \<le> x" "expo x \<le> k"
  shows "of_int m * 2 powi (k - 52) \<le> rval x"
proof -
  define M where "M = m * 2 ^ nat (k - expo x)"
  have h: "of_int m * 2 powi (k - 52) = of_int M * ulp x"
    unfolding M_def ulp_def using assms(2) by (rule grid_multiple)
  have u: "0 < ulp x" by (rule ulp_pos)
  have "of_int M \<le> x / ulp x" using assms(1) u by (simp add: h pos_le_divide_eq)
  then have "M \<le> roundEven (x / ulp x)" by (rule roundEven_ge)
  then have "of_int M * ulp x \<le> of_int (roundEven (x / ulp x)) * ulp x"
    using u by (intro mult_right_mono) simp_all
  then show ?thesis by (simp add: rval_def h)
qed

lemma rval_nonneg: "0 \<le> x \<Longrightarrow> 0 \<le> rval x"
  using rval_ge_grid [of 0 "expo x" x] by simp

lemma rval_nonpos: "x \<le> 0 \<Longrightarrow> rval x \<le> 0"
  using rval_le_grid [of x 0 "expo x"] by simp

lemma ulp_le: "x \<noteq> 0 \<Longrightarrow> \<bar>x\<bar> < 2 powi (k + 1) \<Longrightarrow> - 1022 \<le> k \<Longrightarrow> ulp x \<le> 2 powi (k - 52)"
  unfolding ulp_def by (rule powi_mono) (simp add: expo_le)

lemma rval_err_le:
  assumes "\<bar>x\<bar> < 2 powi (k + 1)" "- 1022 \<le> k"
  shows "\<bar>rval x - x\<bar> \<le> 2 powi (k - 53)"
proof (cases "x = 0")
  case True
  then show ?thesis using powi_pos [of "k - 53"] by (simp add: rval_zero)
next
  case False
  have "\<bar>rval x - x\<bar> \<le> ulp x / 2" by (rule rval_err)
  also have "\<dots> \<le> 2 powi (k - 52) / 2" using ulp_le [OF False assms] by simp
  also have "\<dots> = 2 powi (k - 53)" using powi_pred [of "k - 52"] by simp
  finally show ?thesis .
qed

lemma ulp_half: "ulp x / 2 = 2 powi (expo x - 53)"
  using powi_pred [of "expo x - 52"] by (simp add: ulp_def)

lemma rval_err_rel: "\<bar>rval x - x\<bar> \<le> \<bar>x\<bar> * 2 powi (- 53) + 2 powi (- 1075)"
proof (cases "x = 0")
  case True
  then show ?thesis using powi_pos [of "- 1075"] by (simp only: rval_zero)
next
  case False
  have e: "\<bar>rval x - x\<bar> \<le> 2 powi (expo x - 53)"
    using rval_err [of x] by (simp only: ulp_half)
  have p: "0 < (2::real) powi (- 1075)" "0 < (2::real) powi (- 53)" by (rule powi_pos)+
  show ?thesis
  proof (cases "- 1022 < expo x")
    case True
    have "(2::real) powi (expo x - 53) = 2 powi (expo x) * 2 powi (- 53)"
      using powi_split [of "expo x" "- 53"] by simp
    also have "\<dots> \<le> \<bar>x\<bar> * 2 powi (- 53)"
      using expo_normal [OF False True] p(2) by (intro mult_right_mono) (simp_all only: less_imp_le)
    finally have "\<bar>rval x - x\<bar> \<le> \<bar>x\<bar> * 2 powi (- 53)" using e by linarith
    then show ?thesis using p(1) by linarith
  next
    case False
    then have "expo x - 53 = - 1075" using expo_ge [of x] by simp
    then have "\<bar>rval x - x\<bar> \<le> 2 powi (- 1075)" using e by (simp only:)
    moreover have "0 \<le> \<bar>x\<bar> * 2 powi (- 53)" using p(2) by (intro mult_nonneg_nonneg) (simp_all only: abs_ge_zero less_imp_le)
    ultimately show ?thesis by linarith
  qed
qed

lemma rval_finite:
  assumes "\<bar>x\<bar> < 2 powi 1024 - 2 powi 970"
  shows "\<bar>rval x\<bar> < 2 powi 1024"
proof -
  have "\<bar>x\<bar> < 2 powi (1023 + 1)" using assms powi_pos [of 970] by simp
  then have "\<bar>rval x - x\<bar> \<le> 2 powi (1023 - 53)" by (rule rval_err_le) simp
  then show ?thesis using assms by simp
qed

lemma rnd_finite: "\<bar>x\<bar> < 2 powi 1024 - 2 powi 970 \<Longrightarrow> rnd x = Num (rval x)"
  using rval_finite [of x] by (auto simp: rnd_def rval_zero)

lemma rnd_overflow:
  assumes "2 powi 1024 \<le> x"
  shows "rnd x = PosInf"
proof -
  have pos: "0 < x" using assms powi_pos [of 1024] by linarith
  then have x: "x \<noteq> 0" by simp
  have k: "1024 \<le> expo x" using assms pos by (intro expo_ge_pow) simp_all
  then have "2 powi (expo x) \<le> \<bar>x\<bar>" using x by (intro expo_normal) simp_all
  then have "of_int (2 ^ 52) * 2 powi (expo x - 52) \<le> x"
    using pos powi_split [of 52 "expo x - 52"] by simp
  then have "of_int (2 ^ 52) * 2 powi (expo x - 52) \<le> rval x" by (rule rval_ge_grid) simp
  then have "2 powi (expo x) \<le> rval x" using powi_split [of 52 "expo x - 52"] by simp
  moreover have "(2::real) powi 1024 \<le> 2 powi (expo x)" using k by (rule powi_mono)
  ultimately show ?thesis using x by (simp add: rnd_def)
qed

lemma rnd_not_NaN: "rnd x \<noteq> NaN"
  by (simp add: rnd_def)

lemma rnd_eqI:
  assumes "2 powi e \<le> \<bar>x\<bar>" "\<bar>x\<bar> < 2 powi (e + 1)" "- 1022 \<le> e" "e \<le> 1022"
    and "roundEven (x / 2 powi (e - 52)) = m"
  shows "rnd x = Num (of_int m * 2 powi (e - 52))"
proof -
  have "expo x = e" using assms(1-3) by (rule expo_eq)
  then have v: "rval x = of_int m * 2 powi (e - 52)" using assms(5) by (simp add: rval_def ulp_def)
  have "(2::real) powi (e + 1) \<le> 2 powi 1023" using assms(4) by (intro powi_mono) simp
  then have "\<bar>x\<bar> < 2 powi 1023" using assms(2) by linarith
  moreover have "(2::real) powi 1023 < 2 powi 1024 - 2 powi 970" by simp
  ultimately have "\<bar>x\<bar> < 2 powi 1024 - 2 powi 970" by linarith
  then show ?thesis using v by (simp only: rnd_finite)
qed

lemma floor_rem_bounds:
  fixes x y :: real
  assumes "0 < y"
  shows "0 \<le> x - y * of_int \<lfloor>x / y\<rfloor>" "x - y * of_int \<lfloor>x / y\<rfloor> < y"
proof -
  have "of_int \<lfloor>x / y\<rfloor> \<le> x / y" by simp
  then have "y * of_int \<lfloor>x / y\<rfloor> \<le> y * (x / y)" using assms by (intro mult_left_mono) simp_all
  then have "y * of_int \<lfloor>x / y\<rfloor> \<le> x" using assms by simp
  then show "0 \<le> x - y * of_int \<lfloor>x / y\<rfloor>" by simp
  have "x / y < of_int \<lfloor>x / y\<rfloor> + 1" by linarith
  then have "y * (x / y) < y * (of_int \<lfloor>x / y\<rfloor> + 1)" using assms by (intro mult_strict_left_mono) simp_all
  then have "x < (of_int \<lfloor>x / y\<rfloor> + 1) * y" using assms by (simp add: mult.commute)
  then show "x - y * of_int \<lfloor>x / y\<rfloor> < y" by (simp add: algebra_simps)
qed

lemma ceiling_rem_bounds:
  fixes x y :: real
  assumes "0 < y"
  shows "x - y * of_int \<lceil>x / y\<rceil> \<le> 0" "- y < x - y * of_int \<lceil>x / y\<rceil>"
proof -
  have "x / y \<le> of_int \<lceil>x / y\<rceil>" by simp
  then have "y * (x / y) \<le> y * of_int \<lceil>x / y\<rceil>" using assms by (intro mult_left_mono) simp_all
  then have "x \<le> y * of_int \<lceil>x / y\<rceil>" using assms by simp
  then show "x - y * of_int \<lceil>x / y\<rceil> \<le> 0" by simp
  have "of_int \<lceil>x / y\<rceil> - 1 < x / y" by linarith
  then have "y * (of_int \<lceil>x / y\<rceil> - 1) < y * (x / y)" using assms by (intro mult_strict_left_mono) simp_all
  then have "y * (of_int \<lceil>x / y\<rceil> - 1) < x" using assms by simp
  then show "- y < x - y * of_int \<lceil>x / y\<rceil>" by (simp add: algebra_simps)
qed

lemma fmod_abs_less: "0 < y \<Longrightarrow> \<bar>fmod x y\<bar> < y"
  using floor_rem_bounds [of y x] ceiling_rem_bounds [of y x]
  by (auto simp: fmod_def trunc_def)

lemma fmod_nonneg: "0 < y \<Longrightarrow> 0 \<le> x \<Longrightarrow> 0 \<le> fmod x y \<and> fmod x y < y"
  using floor_rem_bounds [of y x] by (simp add: fmod_def trunc_def)

lemma Math_PI_grid: "Math_PI = of_int 7074237752028440 * 2 powi (1 - 52)"
  by (simp add: Math_PI_def)

lemma Math_PI_bounds: "2 < Math_PI" "Math_PI < 4"
  by (simp_all add: Math_PI_def)

lemma tau_val: "jsMul (Num 2) (Num Math_PI) = Num (2 * Math_PI)"
proof -
  have "rnd (2 * Math_PI) = Num (of_int 7074237752028440 * 2 powi (2 - 52))"
    by (rule rnd_eqI) (simp_all add: Math_PI_def roundEven_near)
  then show ?thesis by (simp add: Math_PI_def)
qed

lemma rnd_small:
  assumes "\<bar>x\<bar> < 16"
  shows "rnd x = Num (rval x)"
proof -
  have "(16::real) < 2 powi 1024 - 2 powi 970" by simp
  then show ?thesis using assms by (intro rnd_finite) linarith
qed

lemma rval_PI_range:
  assumes "- Math_PI \<le> x" "x \<le> Math_PI"
  shows "- Math_PI \<le> rval x \<and> rval x \<le> Math_PI"
proof (cases "x = 0")
  case True
  then show ?thesis using Math_PI_bounds by (simp add: rval_zero)
next
  case False
  have "\<bar>x\<bar> < 2 powi (1 + 1)" using assms Math_PI_bounds by simp
  then have e: "expo x \<le> 1" using False by (intro expo_le) simp_all
  have up: "x \<le> of_int 7074237752028440 * 2 powi (1 - 52)"
    using assms(2) by (simp only: Math_PI_grid)
  have lo: "of_int (- 7074237752028440) * 2 powi (1 - 52) \<le> x"
    using assms(1) by (simp only: Math_PI_grid of_int_minus mult_minus_left)
  have "rval x \<le> of_int 7074237752028440 * 2 powi (1 - 52)"
    using up e by (rule rval_le_grid)
  moreover have "of_int (- 7074237752028440) * 2 powi (1 - 52) \<le> rval x"
    using lo e by (rule rval_ge_grid)
  ultimately show ?thesis by (simp only: Math_PI_grid of_int_minus mult_minus_left)
qed

lemma normalizePhase_core:
  fixes a :: real
  shows "\<exists>r k. (let tau = Num (2 * Math_PI);
                  wrapped = jsSub (jsRem (jsAdd (jsRem (Num a) tau) tau) tau) (Num Math_PI)
              in if jsEq wrapped (jsNeg (Num Math_PI)) then Num Math_PI else wrapped) = Num r
          \<and> - Math_PI < r \<and> r \<le> Math_PI
          \<and> \<bar>r - (a - Math_PI + of_int k * (2 * Math_PI))\<bar> \<le> 5 * 2 powi (- 52)"
proof -
  define T where "T = 2 * Math_PI"
  have T: "0 < T" "T < 8" "T \<noteq> 0" using Math_PI_bounds by (simp_all add: T_def)
  define k1 where "k1 = trunc (a / T)"
  define b where "b = fmod a T"
  have b: "b = a - T * of_int k1" by (simp add: b_def k1_def fmod_def)
  have b_abs: "\<bar>b\<bar> < T" unfolding b_def using T(1) by (rule fmod_abs_less)
  define c where "c = rval (b + T)"
  have bT: "0 \<le> b + T" "\<bar>b + T\<bar> < 16" using b_abs T by linarith+
  have rc: "rnd (b + T) = Num c" unfolding c_def using bT(2) by (rule rnd_small)
  have c0: "0 \<le> c" unfolding c_def using bT(1) by (rule rval_nonneg)
  have "\<bar>b + T\<bar> < 2 powi (3 + 1)" using bT(2) by simp
  then have "\<bar>rval (b + T) - (b + T)\<bar> \<le> 2 powi (3 - 53)" by (rule rval_err_le) simp
  then have cerr: "\<bar>c - (b + T)\<bar> \<le> 2 powi (- 50)" by (simp add: c_def)
  define k2 where "k2 = trunc (c / T)"
  define d where "d = fmod c T"
  have d: "d = c - T * of_int k2" by (simp add: d_def k2_def fmod_def)
  have d_rng: "0 \<le> d" "d < T" unfolding d_def using fmod_nonneg [OF T(1) c0] by simp_all
  have dP: "- Math_PI \<le> d - Math_PI" "d - Math_PI \<le> Math_PI" "\<bar>d - Math_PI\<bar> < 16"
    using d_rng T Math_PI_bounds by (simp_all add: T_def)
  define e where "e = rval (d - Math_PI)"
  have re: "rnd (d - Math_PI) = Num e" unfolding e_def using dP(3) by (rule rnd_small)
  have e_rng: "- Math_PI \<le> e" "e \<le> Math_PI"
    unfolding e_def using rval_PI_range [OF dP(1,2)] by simp_all
  have "\<bar>d - Math_PI\<bar> < 2 powi (1 + 1)" using dP(1,2) Math_PI_bounds by simp
  then have "\<bar>rval (d - Math_PI) - (d - Math_PI)\<bar> \<le> 2 powi (1 - 53)" by (rule rval_err_le) simp
  then have eerr: "\<bar>e - (d - Math_PI)\<bar> \<le> 2 powi (- 52)" by (simp add: e_def)
  define r where "r = (if e = - Math_PI then Math_PI else e)"
  define k3 :: int where "k3 = (if e = - Math_PI then 1 else 0)"
  have rk: "r = e + of_int k3 * T" by (simp add: r_def k3_def T_def)
  have r_rng: "- Math_PI < r" "r \<le> Math_PI"
    using e_rng Math_PI_bounds by (auto simp: r_def)
  have np: "(let tau = Num (2 * Math_PI);
                  wrapped = jsSub (jsRem (jsAdd (jsRem (Num a) tau) tau) tau) (Num Math_PI)
              in if jsEq wrapped (jsNeg (Num Math_PI)) then Num Math_PI else wrapped) = Num r"
    using T(3) rc re
    by (simp add: Let_def jsSub_def T_def [symmetric] b_def [symmetric] d_def [symmetric] r_def)
  have "r - (a - Math_PI + of_int (k3 - k2 - k1 + 1) * T)
          = (c - (b + T)) + (e - (d - Math_PI))"
    by (simp add: rk b d algebra_simps)
  moreover have "(2::real) powi (- 50) = 4 * 2 powi (- 52)" by simp
  ultimately have "\<bar>r - (a - Math_PI + of_int (k3 - k2 - k1 + 1) * T)\<bar> \<le> 5 * 2 powi (- 52)"
    using cerr eerr by linarith
  then show ?thesis using np r_rng unfolding T_def by blast
qed

lemma normalizePhase_master:
  assumes "\<bar>phi\<bar> \<le> MAX_VALUE"
  shows "\<exists>r k. normalizePhase (Num phi) = Num r \<and> - Math_PI < r \<and> r \<le> Math_PI
          \<and> \<bar>r - (phi + of_int k * (2 * Math_PI))\<bar>
              \<le> \<bar>rval (phi + Math_PI) - (phi + Math_PI)\<bar> + 5 * 2 powi (- 52)"
proof -
  have "MAX_VALUE + 4 < 2 powi 1024 - 2 powi 970" by (simp add: MAX_VALUE_def)
  then have "\<bar>phi + Math_PI\<bar> < 2 powi 1024 - 2 powi 970"
    using assms Math_PI_bounds by linarith
  then have ra: "rnd (phi + Math_PI) = Num (rval (phi + Math_PI))" by (rule rnd_finite)
  obtain r k where rk: "(let tau = Num (2 * Math_PI);
                  wrapped = jsSub (jsRem (jsAdd (jsRem (Num (rval (phi + Math_PI))) tau) tau) tau) (Num Math_PI)
              in if jsEq wrapped (jsNeg (Num Math_PI)) then Num Math_PI else wrapped) = Num r"
      "- Math_PI < r" "r \<le> Math_PI"
      "\<bar>r - (rval (phi + Math_PI) - Math_PI + of_int k * (2 * Math_PI))\<bar> \<le> 5 * 2 powi (- 52)"
    using normalizePhase_core [of "rval (phi + Math_PI)"] by blast
  have "normalizePhase (Num phi) = Num r"
    unfolding normalizePhase_def tau_val jsAdd.simps(1) ra by (rule rk(1))
  moreover have "\<bar>r - (phi + of_int k * (2 * Math_PI))\<bar>
              \<le> \<bar>rval (phi + Math_PI) - (phi + Math_PI)\<bar> + 5 * 2 powi (- 52)"
    using rk(4) by linarith
  ultimately show ?thesis using rk(2,3) by blast
qed

lemma MAX_VALUE_grid: "MAX_VALUE = of_int (2 ^ 53 - 1) * 2 powi (1023 - 52)"
  by (simp add: MAX_VALUE_def)

lemma rval_le_MAX:
  assumes "x < 2 powi 1024 - 2 powi 970"
  shows "rval x \<le> MAX_VALUE"
proof (cases "x \<le> 0")
  case True
  then have "rval x \<le> 0" by (rule rval_nonpos)
  moreover have "0 \<le> MAX_VALUE" by (simp add: MAX_VALUE_def)
  ultimately show ?thesis by linarith
next
  case False
  then have pos: "0 < x" "x \<noteq> 0" by simp_all
  have "\<bar>x\<bar> < 2 powi (1023 + 1)" using assms pos by simp
  then have e: "expo x \<le> 1023" using pos(2) by (intro expo_le) simp_all
  show ?thesis
  proof (cases "x \<le> MAX_VALUE")
    case True
    then have "x \<le> of_int (2 ^ 53 - 1) * 2 powi (1023 - 52)" by (simp only: MAX_VALUE_grid)
    then have "rval x \<le> of_int (2 ^ 53 - 1) * 2 powi (1023 - 52)" using e by (rule rval_le_grid)
    then show ?thesis by (simp only: MAX_VALUE_grid)
  next
    case False
    then have "2 powi 1023 \<le> \<bar>x\<bar>" using pos by (simp add: MAX_VALUE_def)
    then have "1023 \<le> expo x" using pos(2) by (intro expo_ge_pow) simp_all
    then have ex: "expo x = 1023" using e by simp
    then have u: "ulp x = 2 powi 971" by (simp add: ulp_def)
    have "x / 2 powi 971 < 2 ^ 53 - 1 / 2" using assms by (simp add: field_simps)
    moreover have "real_of_int (roundEven (x / 2 powi 971)) \<le> x / 2 powi 971 + 1 / 2"
      using roundEven_err [of "x / 2 powi 971"] by linarith
    ultimately have "real_of_int (roundEven (x / 2 powi 971)) < 2 ^ 53" by linarith
    then have "real_of_int (roundEven (x / 2 powi 971)) < real_of_int (2 ^ 53)" by simp
    then have "roundEven (x / 2 powi 971) < 2 ^ 53" by (simp only: of_int_less_iff)
    then have "roundEven (x / 2 powi 971) \<le> 2 ^ 53 - 1" by simp
    then have "real_of_int (roundEven (x / 2 powi 971)) \<le> of_int (2 ^ 53 - 1)"
      by (simp only: of_int_le_iff)
    then have "real_of_int (roundEven (x / 2 powi 971)) * 2 powi 971 \<le> of_int (2 ^ 53 - 1) * 2 powi 971"
      by (intro mult_right_mono) (simp_all add: powi_pos less_imp_le)
    then show ?thesis unfolding rval_def u MAX_VALUE_grid by simp
  qed
qed

lemma rval_ge_MAX:
  assumes "- (2 powi 1024 - 2 powi 970) < x"
  shows "- MAX_VALUE \<le> rval x"
proof (cases "0 \<le> x")
  case True
  then have "0 \<le> rval x" by (rule rval_nonneg)
  moreover have "0 \<le> MAX_VALUE" by (simp add: MAX_VALUE_def)
  ultimately show ?thesis by linarith
next
  case False
  then have neg: "x < 0" "x \<noteq> 0" by simp_all
  have "\<bar>x\<bar> < 2 powi (1023 + 1)" using assms neg by simp
  then have e: "expo x \<le> 1023" using neg(2) by (intro expo_le) simp_all
  show ?thesis
  proof (cases "- MAX_VALUE \<le> x")
    case True
    then have "of_int (- (2 ^ 53 - 1)) * 2 powi (1023 - 52) \<le> x"
      by (simp only: MAX_VALUE_grid of_int_minus mult_minus_left)
    then have "of_int (- (2 ^ 53 - 1)) * 2 powi (1023 - 52) \<le> rval x" using e by (rule rval_ge_grid)
    then show ?thesis by (simp only: MAX_VALUE_grid of_int_minus mult_minus_left)
  next
    case False
    then have "2 powi 1023 \<le> \<bar>x\<bar>" using neg by (simp add: MAX_VALUE_def)
    then have "1023 \<le> expo x" using neg(2) by (intro expo_ge_pow) simp_all
    then have ex: "expo x = 1023" using e by simp
    then have u: "ulp x = 2 powi 971" by (simp add: ulp_def)
    have "- (2 ^ 53 - 1 / 2) < x / 2 powi 971" using assms by (simp add: field_simps)
    moreover have "x / 2 powi 971 - 1 / 2 \<le> real_of_int (roundEven (x / 2 powi 971))"
      using roundEven_err [of "x / 2 powi 971"] by linarith
    ultimately have "- (2 ^ 53) < real_of_int (roundEven (x / 2 powi 971))" by linarith
    then have "real_of_int (- (2 ^ 53)) < real_of_int (roundEven (x / 2 powi 971))" by simp
    then have "- (2 ^ 53) < roundEven (x / 2 powi 971)" by (simp only: of_int_less_iff)
    then have "- (2 ^ 53 - 1) \<le> roundEven (x / 2 powi 971)" by simp
    then have "real_of_int (- (2 ^ 53 - 1)) \<le> real_of_int (roundEven (x / 2 powi 971))"
      by (simp only: of_int_le_iff)
    then have "real_of_int (- (2 ^ 53 - 1)) * 2 powi 971 \<le> real_of_int (roundEven (x / 2 powi 971)) * 2 powi 971"
      by (intro mult_right_mono) (simp_all add: powi_pos less_imp_le)
    then show ?thesis unfolding rval_def u MAX_VALUE_grid by simp
  qed
qed

section \<open>Adaptive sample count\<close>

lemma adaptiveSampleCount_int:
  "adaptiveSampleCount f w p =
     of_int (min 12000 (max 320 (max 320 (max \<lceil>220 * max f (1 / 10) * w\<rceil> \<lceil>p * (16 / 10)\<rceil>))))"
  by (simp add: adaptiveSampleCount_def byFrequency_def byPixels_def ceil_def clamp_def
      minSamples_def maxSamples_def MIN_VISUAL_FREQUENCY_def of_int_max of_int_min)

text \<open>
  C2: \<open>adaptiveSampleCount(20, 10, 800)\<close> is exactly 12000: the frequency-driven
  candidate \<open>ceil(220 * 20 * 10) = 44000\<close> exceeds \<open>maxSamples\<close>, so the clamp fires.
  \<open>adaptiveSampleCount(0.1, 1, 50)\<close> is exactly 320 (\<open>minSamples\<close>): the
  frequency-driven candidate (22) and the pixel-driven one (80) are both below the floor.
\<close>

theorem adaptiveSampleCount_examples:
  "byFrequency 20 10 = 44000 \<and> maxSamples < byFrequency 20 10
   \<and> adaptiveSampleCount 20 10 800 = 12000
   \<and> byFrequency (1 / 10) 1 < minSamples \<and> byPixels 50 < minSamples
   \<and> adaptiveSampleCount (1 / 10) 1 50 = 320 \<and> minSamples = 320 \<and> maxSamples = 12000"
  by (simp add: adaptiveSampleCount_def byFrequency_def byPixels_def ceil_def clamp_def
      minSamples_def maxSamples_def MIN_VISUAL_FREQUENCY_def)

text \<open>
  C9: \<open>maxDisplayedAmplitude\<close> treats the sum and the difference toggle alike: with a
  second signal, showing only the sum and showing only the difference both give
  \<open>max(1, A1, A2, A1 + A2)\<close>; the difference uses the bound \<open>A1 + A2\<close> too.
\<close>

theorem maxDisplayedAmplitude_sum_diff:
  "maxDisplayedAmplitude s1 (Some s2) True False = maxDisplayedAmplitude s1 (Some s2) False True
   \<and> maxDisplayedAmplitude s1 (Some s2) False True
       = Max {1, amplitude s1, amplitude s2, amplitude s1 + amplitude s2}"
  by (simp add: maxDisplayedAmplitude_def Let_def max.assoc)

section \<open>Period\<close>

text \<open>
  C5 as stated (for all \<open>f > 0\<close>, \<open>periodFromFrequency(f) * f\<close> is 1) fails below the
  guard: at \<open>f = 1e-7\<close> the period is \<open>1e6\<close> and the product is \<open>0.1\<close>.
\<close>

theorem periodFromFrequency_below_guard:
  "0 < (1 / 10 ^ 7 :: real)
   \<and> periodFromFrequency (1 / 10 ^ 7) * (1 / 10 ^ 7) = 1 / 10
   \<and> periodFromFrequency (1 / 10 ^ 7) * (1 / 10 ^ 7) \<noteq> 1"
  by (simp add: periodFromFrequency_def Let_def)

text \<open>
  C5, amended: for all \<open>f \<ge> 1e-6\<close>, \<open>periodFromFrequency(f) * f\<close> is 1.
\<close>

theorem periodFromFrequency_times_frequency:
  "1 / 10 ^ 6 \<le> f \<Longrightarrow> periodFromFrequency f * f = 1"
  by (simp add: periodFromFrequency_def Let_def max_def)

theorem periodFromFrequency_times_frequency_witness:
  "1 / 10 ^ 6 \<le> (2::real) \<and> periodFromFrequency 2 * 2 = 1"
  using periodFromFrequency_times_frequency [of 2] by simp

section \<open>Synchronisation of the waveform and the phasor\<close>

lemma sampleLoop_length:
  "length (y1BufferRef (sampleLoop i n tStart iv w s1 s2 b)) = length (y1BufferRef b)"
proof (induction i n tStart iv w s1 s2 b rule: sampleLoop.induct)
  case (1 i n tStart iv w s1 s2 b)
  show ?case
  proof (cases "real i < n")
    case True
    then show ?thesis using "1.IH" by (subst sampleLoop.simps) (simp add: Let_def)
  next
    case False
    then show ?thesis by (subst sampleLoop.simps) simp
  qed
qed

lemma sampleLoop_before:
  "j < i \<Longrightarrow> y1BufferRef (sampleLoop i n tStart iv w s1 s2 b) ! j = y1BufferRef b ! j"
proof (induction i n tStart iv w s1 s2 b rule: sampleLoop.induct)
  case (1 i n tStart iv w s1 s2 b)
  show ?case
  proof (cases "real i < n")
    case True
    then show ?thesis using "1.IH" "1.prems" by (subst sampleLoop.simps) (simp add: Let_def)
  next
    case False
    then show ?thesis by (subst sampleLoop.simps) simp
  qed
qed

lemma sampleLoop_y1:
  "i \<le> j \<Longrightarrow> real j < n \<Longrightarrow> j < length (y1BufferRef b) \<Longrightarrow>
   y1BufferRef (sampleLoop i n tStart iv w s1 s2 b) ! j
     = signalAt (tStart + real j * iv * w) s1"
proof (induction i n tStart iv w s1 s2 b rule: sampleLoop.induct)
  case (1 i n tStart iv w s1 s2 b)
  have lt: "real i < n" using "1.prems" by simp
  show ?case
  proof (cases "i = j")
    case True
    have "y1BufferRef (sampleLoop i n tStart iv w s1 s2 b) ! j
        = (y1BufferRef b)[i := signalAt (tStart + real i * iv * w) s1] ! j"
      using lt True by (subst sampleLoop.simps) (simp add: Let_def sampleLoop_before)
    then show ?thesis using True "1.prems" by simp
  next
    case False
    then have "Suc i \<le> j" using "1.prems" by simp
    then show ?thesis using lt "1.IH" "1.prems" by (subst sampleLoop.simps) (simp add: Let_def)
  qed
qed

lemma phasorV1y_eq: "phasorV1y t s1 s2 = signalAt t s1"
  by (simp add: phasorV1y_def phasorVectors_def signalAt_def Let_def)

lemma waveformLastSample_eq:
  assumes "16 < width vp - PADDING_left - PADDING_right"
      and "16 < height vp - PADDING_top - PADDING_bottom"
  shows "waveformLastSample t w s1 s2 cm vp b = Some (signalAt t s1)"
proof -
  define mf where "mf = (if cm then max (frequency s1) (frequency s2) else frequency s1)"
  define n where "n = adaptiveSampleCount mf w (width vp - PADDING_left - PADDING_right)"
  define k where "k = min 12000 (max 320 (max 320 (max \<lceil>220 * max mf (1 / 10) * w\<rceil>
      \<lceil>(width vp - PADDING_left - PADDING_right) * (16 / 10)\<rceil>)))"
  have k: "n = of_int k" "320 \<le> k"
    by (simp_all add: n_def k_def adaptiveSampleCount_int)
  define j where "j = nat (k - 1)"
  have j: "real j = n - 1" "nat \<lfloor>n - 1\<rfloor> = j" using k by (simp_all add: j_def)
  define b1 where "b1 = b\<lparr>timeBufferRef := ensureCapacity (timeBufferRef b) n,
                       y1BufferRef := ensureCapacity (y1BufferRef b) n,
                       y2BufferRef := ensureCapacity (y2BufferRef b) n,
                       sumBufferRef := ensureCapacity (sumBufferRef b) n,
                       diffBufferRef := ensureCapacity (diffBufferRef b) n\<rparr>"
  have len: "j < length (y1BufferRef b1)"
  proof (cases "n \<le> real (length (y1BufferRef b))")
    case True
    then show ?thesis using j by (simp add: b1_def ensureCapacity_def)
  next
    case False
    then show ?thesis using k by (simp add: b1_def ensureCapacity_def j_def)
  qed
  have iv: "1 < n" using k by simp
  have len': "j < length (y1BufferRef (sampleLoop 0 n (t - w) (1 / (n - 1)) w s1 s2 b1))"
    using len by (simp add: sampleLoop_length)
  have idx: "0 \<le> n - 1" "of_int \<lfloor>n - 1\<rfloor> = n - 1" using k by simp_all
  have "y1BufferRef (sampleLoop 0 n (t - w) (1 / (n - 1)) w s1 s2 b1) ! j
          = signalAt ((t - w) + real j * (1 / (n - 1)) * w) s1"
    using len j by (intro sampleLoop_y1) simp_all
  moreover have "(t - w) + real j * (1 / (n - 1)) * w = t" using j k by simp
  ultimately have "y1BufferRef (sampleLoop 0 n (t - w) (1 / (n - 1)) w s1 s2 b1) ! j = signalAt t s1"
    by simp
  then have "typedArrayGet (y1BufferRef (sampleLoop 0 n (t - w) (1 / (n - 1)) w s1 s2 b1)) (n - 1)
      = Some (signalAt t s1)"
    using len' idx j unfolding typedArrayGet_def by simp
  then show ?thesis using assms iv
    by (simp add: waveformLastSample_def sampleWaveform_def Let_def mf_def[symmetric] n_def[symmetric] b1_def[symmetric])
qed

lemma quarter_turn: "signalAt (1 / 4) \<lparr>amplitude = 1, frequency = 1, phaseRad = 0\<rparr> = 1"
proof -
  have "sin (2 * pi * 1 * (1 / 4) + 0) = sin (pi / 2)"
    by (rule arg_cong[of _ _ sin]) simp
  then show ?thesis unfolding signalAt_def thetaAt_def by simp
qed

lemma reachable_viewport:
  "16 < width initialViewport - PADDING_left - PADDING_right"
  "16 < height initialViewport - PADDING_top - PADDING_bottom"
  "16 < width (resize rw rh d) - PADDING_left - PADDING_right"
  "16 < height (resize rw rh d) - PADDING_top - PADDING_bottom"
  by (simp_all add: initialViewport_def resize_def PADDING_left_def PADDING_right_def
      PADDING_top_def PADDING_bottom_def)

text \<open>
  C1: for every tick snapshot (\<open>tNow\<close>, the signal parameters, the window), whenever
  the waveform is drawn (a plot area above 16 pixels each way, which holds for the
  initial viewport and for every viewport that \<open>resize\<close> stores), the last sample of the
  waveform buffer of signal 1 (index \<open>sampleCount - 1\<close>) equals the vertical component
  of the phasor of signal 1, \<open>amplitude * sin(thetaAt(tNow, signal1))\<close>; for the signal
  \<open>{A = 1, f = 1, phi = 0}\<close> and \<open>tNow = 0.25\<close> both are 1. (In real arithmetic the two
  are equal, hence within every tolerance.)
\<close>

theorem waveform_last_sample_is_phasor_y:
  "(16 < width vp - PADDING_left - PADDING_right
      \<and> 16 < height vp - PADDING_top - PADDING_bottom \<longrightarrow>
      waveformLastSample t w s1 s2 cm vp b = Some (phasorV1y t s1 s2))
   \<and> waveformLastSample t w s1 s2 cm initialViewport b = Some (phasorV1y t s1 s2)
   \<and> waveformLastSample t w s1 s2 cm (resize rw rh d) b = Some (phasorV1y t s1 s2)
   \<and> phasorV1y t s1 s2 = amplitude s1 * sin (thetaAt t s1)
   \<and> phasorV1y (1 / 4) \<lparr>amplitude = 1, frequency = 1, phaseRad = 0\<rparr> s2 = 1
   \<and> waveformLastSample (1 / 4) w \<lparr>amplitude = 1, frequency = 1, phaseRad = 0\<rparr>
        s2 cm initialViewport b = Some 1"
proof (intro conjI impI)
  assume "16 < width vp - PADDING_left - PADDING_right
      \<and> 16 < height vp - PADDING_top - PADDING_bottom"
  then show "waveformLastSample t w s1 s2 cm vp b = Some (phasorV1y t s1 s2)"
    by (simp add: waveformLastSample_eq phasorV1y_eq)
next
  show "waveformLastSample t w s1 s2 cm initialViewport b = Some (phasorV1y t s1 s2)"
    by (simp add: waveformLastSample_eq reachable_viewport phasorV1y_eq)
  show "waveformLastSample t w s1 s2 cm (resize rw rh d) b = Some (phasorV1y t s1 s2)"
    by (simp add: waveformLastSample_eq reachable_viewport phasorV1y_eq)
  show "phasorV1y t s1 s2 = amplitude s1 * sin (thetaAt t s1)"
    by (simp add: phasorV1y_eq signalAt_def)
  show "phasorV1y (1 / 4) \<lparr>amplitude = 1, frequency = 1, phaseRad = 0\<rparr> s2 = 1"
    by (simp add: phasorV1y_eq quarter_turn)
  show "waveformLastSample (1 / 4) w \<lparr>amplitude = 1, frequency = 1, phaseRad = 0\<rparr>
        s2 cm initialViewport b = Some 1"
    by (simp add: waveformLastSample_eq reachable_viewport quarter_turn)
qed

theorem waveform_last_sample_is_phasor_y_witness:
  "16 < width \<lparr>width = 800, height = 400, dpr = 2\<rparr> - PADDING_left - PADDING_right
   \<and> 16 < height \<lparr>width = 800, height = 400, dpr = 2\<rparr> - PADDING_top - PADDING_bottom
   \<and> waveformLastSample (1 / 4) 2 DEFAULT_SIGNAL_1 DEFAULT_SIGNAL_2 False
        \<lparr>width = 800, height = 400, dpr = 2\<rparr>
        \<lparr>timeBufferRef = [], y1BufferRef = [], y2BufferRef = [], sumBufferRef = [],
         diffBufferRef = []\<rparr>
       = Some (phasorV1y (1 / 4) DEFAULT_SIGNAL_1 DEFAULT_SIGNAL_2)
   \<and> phasorV1y (1 / 4) DEFAULT_SIGNAL_1 DEFAULT_SIGNAL_2 = 1"
  using waveform_last_sample_is_phasor_y [of "\<lparr>width = 800, height = 400, dpr = 2\<rparr>"
      "1 / 4" 2 DEFAULT_SIGNAL_1 DEFAULT_SIGNAL_2 False
      "\<lparr>timeBufferRef = [], y1BufferRef = [], y2BufferRef = [], sumBufferRef = [],
        diffBufferRef = []\<rparr>" 800 400 2]
  by (simp add: PADDING_left_def PADDING_right_def PADDING_top_def PADDING_bottom_def
      DEFAULT_SIGNAL_1_def)

section \<open>Audio safety envelope\<close>

lemma safeGain_eq: "safeGain amp = clamp (amp / 5) 0 1 * (2 / 10)"
  by (simp add: safeGain_def MAX_AMPLITUDE_def MAX_GAIN_def)

lemma safeFrequency_eq: "safeFrequency freq = clamp freq 20 2000"
  by (simp add: safeFrequency_def MIN_AUDIO_FREQUENCY_def MAX_AUDIO_FREQUENCY_def)

lemma start_ok:
  "contextRef s \<noteq> None \<or> canCreate \<Longrightarrow>
   start canCreate now amp freq s =
     s\<lparr>isStarted := True, error := None, contextRef := Some AudioContext,
       oscillatorRef := Some \<lparr>frequencyParam = [SetValueAtTime (safeFrequency freq) now],
                               startTime = now\<rparr>,
       gainRef := Some \<lparr>gainParam = [SetValueAtTime 0 now,
                               SetTargetAtTime (safeGain amp) now RAMP_SECONDS]\<rparr>\<rparr>"
  by (auto simp: start_def cleanupNodes_def Let_def)

lemma updateEffect_ok:
  "isStarted s \<Longrightarrow> enabled \<Longrightarrow> contextRef s \<noteq> None \<Longrightarrow> oscillatorRef s = Some osc \<Longrightarrow>
   gainRef s = Some g \<Longrightarrow>
   updateEffect enabled now amp freq s =
     s\<lparr>oscillatorRef := Some (osc\<lparr>frequencyParam := frequencyParam osc
           @ [CancelScheduledValues now,
              SetTargetAtTime (safeFrequency freq) now RAMP_SECONDS]\<rparr>),
       gainRef := Some (g\<lparr>gainParam := gainParam g
           @ [CancelScheduledValues now, SetTargetAtTime (safeGain amp) now RAMP_SECONDS]\<rparr>)\<rparr>"
  by (auto simp: updateEffect_def)

text \<open>
  C4: the target gain computed by \<open>start()\<close> and by every parameter update is
  \<open>clamp(amplitude / 5, 0, 1) * 0.2\<close>; for amplitude 5 it is exactly 0.2, and for
  every amplitude it is at most 0.2. It is the target of the ramp scheduled on the gain
  node by a successful \<open>start()\<close> and by an update of a started, enabled hook.
\<close>

theorem audio_target_gain:
  "safeGain amp = clamp (amp / 5) 0 1 * (2 / 10) \<and> safeGain amp \<le> 2 / 10 \<and> safeGain 5 = 2 / 10
   \<and> (contextRef s \<noteq> None \<or> canCreate \<longrightarrow>
        gainRef (start canCreate now amp freq s)
          = Some \<lparr>gainParam = [SetValueAtTime 0 now,
                                SetTargetAtTime (safeGain amp) now RAMP_SECONDS]\<rparr>)
   \<and> (isStarted s \<and> enabled \<and> contextRef s \<noteq> None \<and> oscillatorRef s \<noteq> None
        \<and> gainRef s = Some g \<longrightarrow>
        gainRef (updateEffect enabled now amp freq s)
          = Some (g\<lparr>gainParam := gainParam g
                @ [CancelScheduledValues now,
                   SetTargetAtTime (safeGain amp) now RAMP_SECONDS]\<rparr>))"
proof (intro conjI impI)
  show "safeGain amp = clamp (amp / 5) 0 1 * (2 / 10)" by (rule safeGain_eq)
  show "safeGain amp \<le> 2 / 10" by (simp add: safeGain_eq clamp_def)
  show "safeGain 5 = 2 / 10" by (simp add: safeGain_eq clamp_def)
next
  assume "contextRef s \<noteq> None \<or> canCreate"
  then show "gainRef (start canCreate now amp freq s)
      = Some \<lparr>gainParam = [SetValueAtTime 0 now,
                               SetTargetAtTime (safeGain amp) now RAMP_SECONDS]\<rparr>"
    by (simp add: start_ok)
next
  assume "isStarted s \<and> enabled \<and> contextRef s \<noteq> None \<and> oscillatorRef s \<noteq> None
        \<and> gainRef s = Some g"
  then show "gainRef (updateEffect enabled now amp freq s)
      = Some (g\<lparr>gainParam := gainParam g
           @ [CancelScheduledValues now, SetTargetAtTime (safeGain amp) now RAMP_SECONDS]\<rparr>)"
    by (auto simp: updateEffect_ok)
qed

theorem audio_target_gain_witness:
  "isStarted (start True 0 5 440 initialAudio)
   \<and> contextRef (start True 0 5 440 initialAudio) \<noteq> None
   \<and> oscillatorRef (start True 0 5 440 initialAudio) \<noteq> None
   \<and> gainRef (start True 0 5 440 initialAudio)
       = Some \<lparr>gainParam = [SetValueAtTime 0 0, SetTargetAtTime (2 / 10) 0 (3 / 100)]\<rparr>
   \<and> gainRef (start True 1 (5 / 2) 440 (start True 0 5 440 initialAudio))
       = Some \<lparr>gainParam = [SetValueAtTime 0 1, SetTargetAtTime (1 / 10) 1 (3 / 100)]\<rparr>
   \<and> gainRef (updateEffect True 1 (5 / 2) 440 (start True 0 5 440 initialAudio))
       = Some \<lparr>gainParam = [SetValueAtTime 0 0, SetTargetAtTime (2 / 10) 0 (3 / 100),
                             CancelScheduledValues 1, SetTargetAtTime (1 / 10) 1 (3 / 100)]\<rparr>"
  using audio_target_gain [of "5 / 2" "start True 0 5 440 initialAudio" True 1 440 True
      "\<lparr>gainParam = [SetValueAtTime 0 0, SetTargetAtTime (2 / 10) 0 (3 / 100)]\<rparr>"]
  by (simp add: start_def cleanupNodes_def initialAudio_def safeGain_def safeFrequency_def
      clamp_def MAX_AMPLITUDE_def MAX_GAIN_def RAMP_SECONDS_def)

text \<open>
  C7: for every requested frequency, the frequency applied to the oscillator, by
  \<open>start()\<close> and by every parameter update while started, is the request clamped to
  \<open>[20, 2000]\<close> Hz.
\<close>

theorem audio_frequency_clamped:
  "safeFrequency freq = clamp freq 20 2000 \<and> 20 \<le> safeFrequency freq \<and> safeFrequency freq \<le> 2000
   \<and> (contextRef s \<noteq> None \<or> canCreate \<longrightarrow>
        oscillatorRef (start canCreate now amp freq s)
          = Some \<lparr>frequencyParam = [SetValueAtTime (safeFrequency freq) now], startTime = now\<rparr>)
   \<and> (isStarted s \<and> enabled \<and> contextRef s \<noteq> None \<and> oscillatorRef s = Some osc
        \<and> gainRef s \<noteq> None \<longrightarrow>
        oscillatorRef (updateEffect enabled now amp freq s)
          = Some (osc\<lparr>frequencyParam := frequencyParam osc
                @ [CancelScheduledValues now,
                   SetTargetAtTime (safeFrequency freq) now RAMP_SECONDS]\<rparr>))"
proof (intro conjI impI)
  show "safeFrequency freq = clamp freq 20 2000" by (rule safeFrequency_eq)
  show "20 \<le> safeFrequency freq" by (simp add: safeFrequency_eq clamp_def)
  show "safeFrequency freq \<le> 2000" by (simp add: safeFrequency_eq clamp_def)
next
  assume "contextRef s \<noteq> None \<or> canCreate"
  then show "oscillatorRef (start canCreate now amp freq s)
      = Some \<lparr>frequencyParam = [SetValueAtTime (safeFrequency freq) now], startTime = now\<rparr>"
    by (simp add: start_ok)
next
  assume "isStarted s \<and> enabled \<and> contextRef s \<noteq> None \<and> oscillatorRef s = Some osc
        \<and> gainRef s \<noteq> None"
  then show "oscillatorRef (updateEffect enabled now amp freq s)
      = Some (osc\<lparr>frequencyParam := frequencyParam osc
           @ [CancelScheduledValues now,
              SetTargetAtTime (safeFrequency freq) now RAMP_SECONDS]\<rparr>)"
    by (auto simp: updateEffect_ok)
qed

theorem audio_frequency_clamped_witness:
  "isStarted (start True 0 1 5 initialAudio)
   \<and> contextRef (start True 0 1 5 initialAudio) \<noteq> None
   \<and> gainRef (start True 0 1 5 initialAudio) \<noteq> None
   \<and> oscillatorRef (start True 0 1 5 initialAudio)
       = Some \<lparr>frequencyParam = [SetValueAtTime 20 0], startTime = 0\<rparr>
   \<and> oscillatorRef (start True 1 1 440 (start True 0 1 5 initialAudio))
       = Some \<lparr>frequencyParam = [SetValueAtTime 440 1], startTime = 1\<rparr>
   \<and> oscillatorRef (updateEffect True 1 1 9000 (start True 0 1 5 initialAudio))
       = Some \<lparr>frequencyParam = [SetValueAtTime 20 0, CancelScheduledValues 1,
                                   SetTargetAtTime 2000 1 (3 / 100)], startTime = 0\<rparr>"
  using audio_frequency_clamped [of 9000 "start True 0 1 5 initialAudio" True 1 1 True
      "\<lparr>frequencyParam = [SetValueAtTime 20 0], startTime = 0\<rparr>"]
    audio_frequency_clamped [of 440 "start True 0 1 5 initialAudio" True 1 1 True
      "\<lparr>frequencyParam = [SetValueAtTime 20 0], startTime = 0\<rparr>"]
  by (simp add: start_def cleanupNodes_def initialAudio_def safeGain_def safeFrequency_def
      clamp_def MAX_AMPLITUDE_def MAX_GAIN_def RAMP_SECONDS_def
      MIN_AUDIO_FREQUENCY_def MAX_AUDIO_FREQUENCY_def)

section \<open>Simulation clock\<close>

text \<open>
  C6: reset sets \<open>t_now\<close> to 0, drops the stored previous frame timestamp and forces
  the clock to Playing. After a reset from any state (Playing or Paused), the first
  frame callback, with any timestamp, leaves \<open>t_now\<close> at 0, and the second one is the
  first to accumulate: \<open>t_now\<close> is then the time between the two callbacks, in seconds.
\<close>

theorem reset_then_frames:
  "tNow (handleReset audioNow c) = 0
   \<and> simTimeRef (handleReset audioNow c) = 0
   \<and> lastRafMsRef (handleReset audioNow c) = None
   \<and> isPlaying (handleReset audioNow c)
   \<and> tNow (frame ts1 (handleReset audioNow c)) = 0
   \<and> lastRafMsRef (frame ts1 (handleReset audioNow c)) = Some ts1
   \<and> tNow (frame ts2 (frame ts1 (handleReset audioNow c))) = (ts2 - ts1) / 1000"
  by (simp add: handleReset_def setIsPlaying_def playingEffect_def frame_def tick_def Let_def)

section \<open>Adaptive sample count on doubles\<close>

lemma ceil_rnd_cases:
  "(\<exists>n::int. Math_ceil (rnd x) = Num (of_int n)) \<or> Math_ceil (rnd x) = PosInf
     \<or> Math_ceil (rnd x) = NegInf"
  by (simp add: rnd_def)

lemma clamp_int_or_inf:
  assumes "(\<exists>n::int. bf = Num (of_int n)) \<or> bf = PosInf \<or> bf = NegInf"
      and "(\<exists>n::int. bp = Num (of_int n)) \<or> bp = PosInf \<or> bp = NegInf"
  shows "\<exists>n::int. clamp_ieee (Math_max (Math_max (Num 320) bf) bp) (Num 320) (Num 12000)
            = Num (of_int n) \<and> 320 \<le> n \<and> n \<le> 12000"
proof -
  have a: "(\<exists>n::int. Math_max (Num 320) bf = Num (of_int n) \<and> 320 \<le> n) \<or> Math_max (Num 320) bf = PosInf"
  proof -
    consider n :: int where "bf = Num (of_int n)" | "bf = PosInf" | "bf = NegInf"
      using assms(1) by blast
    then show ?thesis
    proof cases
      case 1
      have "Math_max (Num 320) bf = Num (of_int (max 320 n))"
        by (simp add: 1 Math_max_def max_def)
      then show ?thesis by (intro disjI1 exI [of _ "max 320 n"]) simp
    next
      case 2
      then show ?thesis by (simp add: Math_max_def)
    next
      case 3
      then have "Math_max (Num 320) bf = Num (of_int 320)" by (simp add: Math_max_def)
      then show ?thesis by (intro disjI1 exI [of _ 320]) simp
    qed
  qed
  have b: "(\<exists>n::int. Math_max (Math_max (Num 320) bf) bp = Num (of_int n) \<and> 320 \<le> n)
         \<or> Math_max (Math_max (Num 320) bf) bp = PosInf"
  proof -
    consider m :: int where "Math_max (Num 320) bf = Num (of_int m)" "320 \<le> m"
      | "Math_max (Num 320) bf = PosInf"
      using a by blast
    then show ?thesis
    proof cases
      case 1
      consider n :: int where "bp = Num (of_int n)" | "bp = PosInf" | "bp = NegInf"
        using assms(2) by blast
      then show ?thesis
      proof cases
        case (1 n)
        have "Math_max (Math_max (Num 320) bf) bp = Num (of_int (max m n))"
          using \<open>Math_max (Num 320) bf = Num (of_int m)\<close> 1 by (simp add: Math_max_def max_def)
        then show ?thesis using \<open>320 \<le> m\<close> by (intro disjI1 exI [of _ "max m n"]) simp
      next
        case 2
        then show ?thesis using \<open>Math_max (Num 320) bf = Num (of_int m)\<close> by (simp add: Math_max_def)
      next
        case 3
        then have "Math_max (Math_max (Num 320) bf) bp = Num (of_int m)"
          using \<open>Math_max (Num 320) bf = Num (of_int m)\<close> by (simp add: Math_max_def)
        then show ?thesis using \<open>320 \<le> m\<close> by blast
      qed
    next
      case 2
      consider n :: int where "bp = Num (of_int n)" | "bp = PosInf" | "bp = NegInf"
        using assms(2) by blast
      then show ?thesis using 2 by cases (simp_all add: Math_max_def)
    qed
  qed
  consider m :: int where "Math_max (Math_max (Num 320) bf) bp = Num (of_int m)" "320 \<le> m"
    | "Math_max (Math_max (Num 320) bf) bp = PosInf"
    using b by blast
  then show ?thesis
  proof cases
    case 1
    have "clamp_ieee (Math_max (Math_max (Num 320) bf) bp) (Num 320) (Num 12000)
        = Num (of_int (min 12000 m))"
      using 1 by (simp add: clamp_ieee_def Math_max_def Math_min_def min_def)
    then show ?thesis using 1(2) by (intro exI [of _ "min 12000 m"]) simp
  next
    case 2
    then have "clamp_ieee (Math_max (Math_max (Num 320) bf) bp) (Num 320) (Num 12000)
        = Num (of_int 12000)"
      by (simp add: clamp_ieee_def Math_max_def Math_min_def)
    then show ?thesis by (intro exI [of _ 12000]) simp
  qed
qed

lemma Math_max_Num: "Math_max (Num x) (Num y) = Num (max x y)"
  by (auto simp: Math_max_def max_def)

lemma byFrequency_factor:
  "jsMul (Num 220) (Math_max (Num f) MIN_VISUAL_FREQUENCY_ieee)
     = rnd (220 * max f (3602879701896397 / 2 ^ 55))"
  by (simp only: MIN_VISUAL_FREQUENCY_ieee_def Math_max_Num jsMul.simps(1))

lemma byFrequency_factor_cases:
  "(\<exists>a. jsMul (Num 220) (Math_max (Num f) MIN_VISUAL_FREQUENCY_ieee) = Num a)
   \<or> jsMul (Num 220) (Math_max (Num f) MIN_VISUAL_FREQUENCY_ieee) = PosInf"
proof -
  have "0 \<le> 220 * max f (3602879701896397 / 2 ^ 55)" by simp
  then have "0 \<le> rval (220 * max f (3602879701896397 / 2 ^ 55))" by (rule rval_nonneg)
  moreover have "- (2 powi 1024) < (0::real)" by simp
  ultimately have "\<not> rval (220 * max f (3602879701896397 / 2 ^ 55)) \<le> - (2 powi 1024)"
    by linarith
  then show ?thesis unfolding byFrequency_factor by (simp add: rnd_def)
qed

lemma adaptiveSampleCount_ieee_in_range:
  assumes "jsMul (Num 220) (Math_max (Num f) MIN_VISUAL_FREQUENCY_ieee) \<noteq> PosInf \<or> w \<noteq> 0"
  shows "\<exists>n::int. adaptiveSampleCount_ieee (Num f) (Num w) (Num p) = Num (of_int n)
           \<and> 320 \<le> n \<and> n \<le> 12000"
proof -
  define A where "A = jsMul (Num 220) (Math_max (Num f) MIN_VISUAL_FREQUENCY_ieee)"
  define bf where "bf = Math_ceil (jsMul A (Num w))"
  define bp where "bp = Math_ceil (jsMul (Num p) (Num (3602879701896397 / 2 ^ 51)))"
  have bp: "(\<exists>n::int. bp = Num (of_int n)) \<or> bp = PosInf \<or> bp = NegInf"
    unfolding bp_def jsMul.simps(1) by (rule ceil_rnd_cases)
  have bf: "(\<exists>n::int. bf = Num (of_int n)) \<or> bf = PosInf \<or> bf = NegInf"
  proof -
    consider a where "A = Num a" | "A = PosInf"
      using byFrequency_factor_cases [of f] unfolding A_def by blast
    then show ?thesis
    proof cases
      case 1
      show ?thesis unfolding bf_def 1 jsMul.simps(1) by (rule ceil_rnd_cases)
    next
      case 2
      then have "w \<noteq> 0" using assms unfolding A_def by simp
      then show ?thesis unfolding bf_def 2 by simp
    qed
  qed
  have "adaptiveSampleCount_ieee (Num f) (Num w) (Num p)
      = clamp_ieee (Math_max (Math_max (Num 320) bf) bp) (Num 320) (Num 12000)"
    by (simp only: adaptiveSampleCount_ieee_def Let_def bf_def bp_def A_def)
  then show ?thesis using clamp_int_or_inf [OF bf bp] by simp
qed

lemma adaptiveSampleCount_ieee_NaN:
  assumes "jsMul (Num 220) (Math_max (Num f) MIN_VISUAL_FREQUENCY_ieee) = PosInf"
  shows "adaptiveSampleCount_ieee (Num f) (Num 0) (Num p) = NaN"
  unfolding adaptiveSampleCount_ieee_def Let_def assms
  by (simp add: Math_max_def Math_min_def clamp_ieee_def)

lemma byFrequency_factor_finite:
  assumes "f \<le> 2 powi 1015"
  shows "jsMul (Num 220) (Math_max (Num f) MIN_VISUAL_FREQUENCY_ieee) \<noteq> PosInf"
proof -
  have "max f (3602879701896397 / 2 ^ 55) \<le> 2 powi 1015" using assms by simp
  then have "220 * max f (3602879701896397 / 2 ^ 55) \<le> 220 * 2 powi 1015" by simp
  moreover have "220 * (2::real) powi 1015 < 2 powi 1024 - 2 powi 970" by simp
  moreover have "0 \<le> 220 * max f (3602879701896397 / 2 ^ 55)" by simp
  ultimately have "\<bar>220 * max f (3602879701896397 / 2 ^ 55)\<bar> < 2 powi 1024 - 2 powi 970"
    by linarith
  then have "rnd (220 * max f (3602879701896397 / 2 ^ 55))
      = Num (rval (220 * max f (3602879701896397 / 2 ^ 55)))" by (rule rnd_finite)
  then show ?thesis unfolding byFrequency_factor by simp
qed

lemma overflow_at_1e308:
  "jsMul (Num 220) (Math_max (Num 100000000000000001097906362944045541740492309677311846336810682903157585404911491537163328978494688899061249669721172515611590283743140088328307009198146046031271664502933027185697489699588559043338384466165001178426897626212945177628091195786707458122783970171784415105291802893207873272974885715430223118336) MIN_VISUAL_FREQUENCY_ieee) = PosInf"
  unfolding byFrequency_factor by (rule rnd_overflow) simp

text \<open>
  At the two calls of C2 the doubles give the values of the real reading: every product
  there is exact or rounds to the integer.
\<close>

lemma adaptiveSampleCount_ieee_examples:
  "adaptiveSampleCount_ieee (Num 20) (Num 10) (Num 800) = Num 12000"
  "adaptiveSampleCount_ieee (Num (3602879701896397 / 2 ^ 55)) (Num 1) (Num 50) = Num 320"
proof -
  have a1: "rnd (220 * max 20 (3602879701896397 / 2 ^ 55)) = Num 4400"
  proof -
    have "rnd (220 * max 20 (3602879701896397 / 2 ^ 55))
        = Num (of_int 4837851162214400 * 2 powi (12 - 52))"
      by (rule rnd_eqI) (simp_all add: roundEven_near)
    then show ?thesis by simp
  qed
  have a2: "rnd (4400 * 10) = Num 44000"
  proof -
    have "rnd (4400 * 10) = Num (of_int 6047313952768000 * 2 powi (15 - 52))"
      by (rule rnd_eqI) (simp_all add: roundEven_near)
    then show ?thesis by simp
  qed
  have a3: "rnd (800 * (3602879701896397 / 2 ^ 51)) = Num 1280"
  proof -
    have "rnd (800 * (3602879701896397 / 2 ^ 51))
        = Num (of_int 5629499534213120 * 2 powi (10 - 52))"
      by (rule rnd_eqI) (simp_all add: roundEven_near)
    then show ?thesis by simp
  qed
  have b1: "rnd (220 * max (3602879701896397 / 2 ^ 55) (3602879701896397 / 2 ^ 55)) = Num 22"
  proof -
    have "rnd (220 * max (3602879701896397 / 2 ^ 55) (3602879701896397 / 2 ^ 55))
        = Num (of_int 6192449487634432 * 2 powi (4 - 52))"
      by (rule rnd_eqI) (simp_all add: roundEven_near)
    then show ?thesis by simp
  qed
  have b2: "rnd (22 * 1) = Num 22"
  proof -
    have "rnd (22 * 1) = Num (of_int 6192449487634432 * 2 powi (4 - 52))"
      by (rule rnd_eqI) (simp_all add: roundEven_near)
    then show ?thesis by simp
  qed
  have b3: "rnd (50 * (3602879701896397 / 2 ^ 51)) = Num 80"
  proof -
    have "rnd (50 * (3602879701896397 / 2 ^ 51))
        = Num (of_int 5629499534213120 * 2 powi (6 - 52))"
      by (rule rnd_eqI) (simp_all add: roundEven_near)
    then show ?thesis by simp
  qed
  show "adaptiveSampleCount_ieee (Num 20) (Num 10) (Num 800) = Num 12000"
    by (simp only: adaptiveSampleCount_ieee_def Let_def MIN_VISUAL_FREQUENCY_ieee_def
          Math_max_Num jsMul.simps(1) a1 a2 a3)
       (simp add: Math_max_def Math_min_def clamp_ieee_def)
  show "adaptiveSampleCount_ieee (Num (3602879701896397 / 2 ^ 55)) (Num 1) (Num 50) = Num 320"
    by (simp only: adaptiveSampleCount_ieee_def Let_def MIN_VISUAL_FREQUENCY_ieee_def
          Math_max_Num jsMul.simps(1) b1 b2 b3)
       (simp add: Math_max_def Math_min_def clamp_ieee_def)
qed

text \<open>
  C8 as stated (an integer in \<open>[320, 12000]\<close> for all finite inputs) fails where the
  frequency product overflows and the window is zero: for \<open>adaptiveSampleCount(1e308, 0,
  800)\<close>, \<open>220 * 1e308\<close> is \<open>Infinity\<close>, \<open>Infinity * 0\<close> is \<open>NaN\<close>, and \<open>Math.ceil\<close>,
  \<open>Math.max\<close> and \<open>Math.min\<close> hand \<open>NaN\<close> on.
\<close>

theorem adaptiveSampleCount_NaN_on_overflow:
  "adaptiveSampleCount_ieee (Num 100000000000000001097906362944045541740492309677311846336810682903157585404911491537163328978494688899061249669721172515611590283743140088328307009198146046031271664502933027185697489699588559043338384466165001178426897626212945177628091195786707458122783970171784415105291802893207873272974885715430223118336) (Num 0) (Num 800) = NaN"
  by (rule adaptiveSampleCount_ieee_NaN) (rule overflow_at_1e308)

text \<open>
  C8, amended: for all finite inputs \<open>maxFrequencyHz\<close>, \<open>windowSeconds\<close> and
  \<open>pixelWidth\<close> (a non-positive frequency included) such that \<open>windowSeconds\<close> is not
  zero or \<open>220 * max(maxFrequencyHz, 0.1)\<close> does not overflow to \<open>Infinity\<close>,
  \<open>adaptiveSampleCount\<close> returns an integer \<open>N\<close> with \<open>320 \<le> N \<le> 12000\<close>; the product
  does not overflow for any \<open>maxFrequencyHz\<close> up to \<open>2^1015\<close>.
\<close>

theorem adaptiveSampleCount_ieee_range:
  "(jsMul (Num 220) (Math_max (Num maxFrequencyHz) MIN_VISUAL_FREQUENCY_ieee) \<noteq> PosInf
      \<or> windowSeconds \<noteq> 0 \<longrightarrow>
      (\<exists>n::int. adaptiveSampleCount_ieee (Num maxFrequencyHz) (Num windowSeconds) (Num pixelWidth)
                   = Num (of_int n) \<and> 320 \<le> n \<and> n \<le> 12000))
   \<and> (maxFrequencyHz \<le> 2 powi 1015 \<longrightarrow>
      jsMul (Num 220) (Math_max (Num maxFrequencyHz) MIN_VISUAL_FREQUENCY_ieee) \<noteq> PosInf)"
  using adaptiveSampleCount_ieee_in_range [of maxFrequencyHz windowSeconds pixelWidth]
    byFrequency_factor_finite [of maxFrequencyHz]
  by blast

theorem adaptiveSampleCount_ieee_range_witness:
  "(20::real) \<le> 2 powi 1015
   \<and> jsMul (Num 220) (Math_max (Num 20) MIN_VISUAL_FREQUENCY_ieee) \<noteq> PosInf
   \<and> (\<exists>n::int. adaptiveSampleCount_ieee (Num 20) (Num 10) (Num 800) = Num (of_int n)
                 \<and> 320 \<le> n \<and> n \<le> 12000)"
  using adaptiveSampleCount_ieee_range [of 20 10 800] by simp

section \<open>Phase normalisation on doubles\<close>

lemma normalizePhase_eval:
  assumes "rnd (x + Math_PI) = Num a"
      and "rnd (fmod a (2 * Math_PI) + 2 * Math_PI) = Num c"
      and "rnd (fmod c (2 * Math_PI) - Math_PI) = Num e"
  shows "normalizePhase (Num x) = Num (if e = - Math_PI then Math_PI else e)"
proof -
  have "2 * Math_PI \<noteq> 0" using Math_PI_bounds by simp
  then show ?thesis
    unfolding normalizePhase_def tau_val jsAdd.simps(1) assms(1)
    using assms(2,3) by (simp add: Let_def jsSub_def)
qed

lemma phi0_plus_tau:
  "jsAdd (Num (3537118876014221 / 2 ^ 50)) (jsMul (Num 2) (Num Math_PI))
     = Num (2652839157010665 / 2 ^ 48)"
proof -
  have "jsAdd (Num (3537118876014221 / 2 ^ 50)) (jsMul (Num 2) (Num Math_PI))
      = rnd (3537118876014221 / 2 ^ 50 + 2 * Math_PI)"
    by (simp only: tau_val jsAdd.simps(1))
  also have "\<dots> = Num (of_int 5305678314021330 * 2 powi (3 - 52))"
  proof (rule rnd_eqI)
    show "roundEven ((3537118876014221 / 2 ^ 50 + 2 * Math_PI) / 2 powi (3 - 52)) = 5305678314021330"
      by (rule roundEven_tie_down) (simp_all add: Math_PI_def)
  qed (simp_all add: Math_PI_def)
  also have "\<dots> = Num (2652839157010665 / 2 ^ 48)" by simp
  finally show ?thesis .
qed

lemma normalizePhase_at_phi0:
  "normalizePhase (Num (3537118876014221 / 2 ^ 50)) = Num (- (3537118876014219 / 2 ^ 50))"
proof -
  have a: "rnd (3537118876014221 / 2 ^ 50 + Math_PI) = Num (of_int 7074237752028441 * 2 powi (2 - 52))"
    by (rule rnd_eqI) (simp_all add: Math_PI_def roundEven_near)
  have b: "fmod (of_int 7074237752028441 * 2 powi (2 - 52)) (2 * Math_PI) = 1 / 2 ^ 50"
    by (simp add: fmod_def trunc_def Math_PI_def)
  have c: "rnd (fmod (of_int 7074237752028441 * 2 powi (2 - 52)) (2 * Math_PI) + 2 * Math_PI) = Num (of_int 7074237752028441 * 2 powi (2 - 52))"
    unfolding b by (rule rnd_eqI) (simp_all add: Math_PI_def roundEven_near)
  have d: "fmod (of_int 7074237752028441 * 2 powi (2 - 52)) (2 * Math_PI) = 1 / 2 ^ 50"
    by (simp add: fmod_def trunc_def Math_PI_def)
  have e: "rnd (fmod (of_int 7074237752028441 * 2 powi (2 - 52)) (2 * Math_PI) - Math_PI) = Num (of_int (- 7074237752028438) * 2 powi (1 - 52))"
    unfolding d by (rule rnd_eqI) (simp_all add: Math_PI_def roundEven_near)
  have "normalizePhase (Num (3537118876014221 / 2 ^ 50))
      = Num (if of_int (- 7074237752028438) * 2 powi (1 - 52) = - Math_PI then Math_PI else of_int (- 7074237752028438) * 2 powi (1 - 52))"
    by (rule normalizePhase_eval [OF a c e])
  also have "\<dots> = Num (- (3537118876014219 / 2 ^ 50))" by (simp add: Math_PI_def)
  finally show ?thesis .
qed

lemma normalizePhase_at_phi0_plus_tau:
  "normalizePhase (Num (2652839157010665 / 2 ^ 48)) = Num (Math_PI)"
proof -
  have a: "rnd (2652839157010665 / 2 ^ 48 + Math_PI) = Num (of_int 7074237752028440 * 2 powi (3 - 52))"
    by (rule rnd_eqI) (simp_all add: Math_PI_def roundEven_near)
  have b: "fmod (of_int 7074237752028440 * 2 powi (3 - 52)) (2 * Math_PI) = 0"
    by (simp add: fmod_def trunc_def Math_PI_def)
  have c: "rnd (fmod (of_int 7074237752028440 * 2 powi (3 - 52)) (2 * Math_PI) + 2 * Math_PI) = Num (of_int 7074237752028440 * 2 powi (2 - 52))"
    unfolding b by (rule rnd_eqI) (simp_all add: Math_PI_def roundEven_near)
  have d: "fmod (of_int 7074237752028440 * 2 powi (2 - 52)) (2 * Math_PI) = 0"
    by (simp add: fmod_def trunc_def Math_PI_def)
  have e: "rnd (fmod (of_int 7074237752028440 * 2 powi (2 - 52)) (2 * Math_PI) - Math_PI) = Num (of_int (- 7074237752028440) * 2 powi (1 - 52))"
    unfolding d by (rule rnd_eqI) (simp_all add: Math_PI_def roundEven_near)
  have "normalizePhase (Num (2652839157010665 / 2 ^ 48))
      = Num (if of_int (- 7074237752028440) * 2 powi (1 - 52) = - Math_PI then Math_PI else of_int (- 7074237752028440) * 2 powi (1 - 52))"
    by (rule normalizePhase_eval [OF a c e])
  also have "\<dots> = Num (Math_PI)" by (simp add: Math_PI_def)
  finally show ?thesis .
qed




lemma normalizePhase_at_minus_PI: "normalizePhase (Num (- Math_PI)) = Num Math_PI"
proof -
  have a: "rnd (- Math_PI + Math_PI) = Num 0" by (simp add: rnd_def)
  have b: "fmod 0 (2 * Math_PI) = 0" by (simp add: fmod_def trunc_def)
  have c: "rnd (fmod 0 (2 * Math_PI) + 2 * Math_PI) = Num (of_int 7074237752028440 * 2 powi (2 - 52))"
    unfolding b by (rule rnd_eqI) (simp_all add: Math_PI_def roundEven_near)
  have d: "fmod (of_int 7074237752028440 * 2 powi (2 - 52)) (2 * Math_PI) = 0"
    by (simp add: fmod_def trunc_def Math_PI_def)
  have e: "rnd (fmod (of_int 7074237752028440 * 2 powi (2 - 52)) (2 * Math_PI) - Math_PI)
      = Num (of_int (- 7074237752028440) * 2 powi (1 - 52))"
    unfolding d by (rule rnd_eqI) (simp_all add: Math_PI_def roundEven_near)
  have "normalizePhase (Num (- Math_PI))
      = Num (if of_int (- 7074237752028440) * 2 powi (1 - 52) = - Math_PI then Math_PI
             else of_int (- 7074237752028440) * 2 powi (1 - 52))"
    by (rule normalizePhase_eval [OF a c e])
  also have "\<dots> = Num Math_PI" by (simp add: Math_PI_def)
  finally show ?thesis .
qed



lemma bound_arith:
  fixes A E0 E1 D t :: real
  assumes "0 \<le> A" "D \<le> A * (1 / 2 ^ 53) + 1 / 2 ^ 49"
    "E0 \<le> A * (1 / 2 ^ 53) + 4 / 2 ^ 53 + t + 5 / 2 ^ 52"
    "E1 \<le> (A * (1 + 1 / 2 ^ 53) + 13) * (1 / 2 ^ 53) + t + 5 / 2 ^ 52"
    "0 \<le> t" "t \<le> 1 / 2 ^ 60"
  shows "E1 + E0 + D \<le> A * (1 / 2 ^ 51) + 1 / 2 ^ 47"
proof -
  have a: "D \<le> A / 9007199254740992 + 1 / 562949953421312" using assms(2) by simp
  have b: "E0 \<le> A / 9007199254740992 + 4 / 9007199254740992 + t + 5 / 4503599627370496"
    using assms(3) by simp
  define X where "X = (A * (1 + 1 / 2 ^ 53) + 13) * (1 / 2 ^ 53)"
  have "X \<le> A * 2 / 9007199254740992 + 13 / 9007199254740992"
    using assms(1) by (simp add: X_def field_simps)
  moreover have "E1 \<le> X + t + 5 / 4503599627370496"
    using assms(4) by (simp add: X_def)
  ultimately have c: "E1 \<le> A * 2 / 9007199254740992 + 13 / 9007199254740992 + t + 5 / 4503599627370496"
    by linarith
  have d: "t \<le> 1 / 1152921504606846976" using assms(6) by simp
  have "E1 + E0 + D \<le> A / 2251799813685248 + 1 / 140737488355328"
    using a b c d assms(1,5) by linarith
  then show ?thesis by simp
qed

lemma normalizePhase_near_periodic:
  assumes "\<bar>phi\<bar> \<le> MAX_VALUE"
  shows "\<exists>p r r' k. jsAdd (Num phi) (jsMul (Num 2) (Num Math_PI)) = Num p
           \<and> normalizePhase (Num phi) = Num r \<and> normalizePhase (Num p) = Num r'
           \<and> \<bar>r' - (r + of_int k * (2 * Math_PI))\<bar> \<le> \<bar>phi\<bar> * 2 powi (- 51) + 2 powi (- 47)"
proof -
  define T where "T = 2 * Math_PI"
  define p where "p = rval (phi + T)"
  define t :: real where "t = 2 powi (- 1075)"
  have T: "0 < T" "T < 8" using Math_PI_bounds by (simp_all add: T_def)
  have t: "0 \<le> t" "t \<le> 1 / 2 ^ 60"
  proof -
    show "0 \<le> t" unfolding t_def using powi_pos [of "- 1075"] by linarith
    have "(2::real) powi (- 1075) \<le> 2 powi (- 60)" by (rule powi_mono) simp
    then show "t \<le> 1 / 2 ^ 60" unfolding t_def by (simp only: power_int_minus_divide power_int_numeral)
  qed
  have "MAX_VALUE + 8 < 2 powi 1024 - 2 powi 970" by (simp add: MAX_VALUE_def)
  then have fin: "\<bar>phi + T\<bar> < 2 powi 1024 - 2 powi 970" using assms T by linarith
  then have rp: "rnd (phi + T) = Num p" unfolding p_def by (rule rnd_finite)
  have add: "jsAdd (Num phi) (jsMul (Num 2) (Num Math_PI)) = Num p"
    using rp by (simp only: tau_val jsAdd.simps(1) T_def)
  have pM: "\<bar>p\<bar> \<le> MAX_VALUE"
    unfolding p_def using rval_le_MAX [of "phi + T"] rval_ge_MAX [of "phi + T"] fin by linarith
  obtain r k where rk: "normalizePhase (Num phi) = Num r"
      "\<bar>r - (phi + of_int k * T)\<bar> \<le> \<bar>rval (phi + Math_PI) - (phi + Math_PI)\<bar> + 5 * 2 powi (- 52)"
    using normalizePhase_master [OF assms] unfolding T_def by blast
  obtain r' k' where rk': "normalizePhase (Num p) = Num r'"
      "\<bar>r' - (p + of_int k' * T)\<bar> \<le> \<bar>rval (p + Math_PI) - (p + Math_PI)\<bar> + 5 * 2 powi (- 52)"
    using normalizePhase_master [OF pM] unfolding T_def by blast
  have h: "(2::real) powi (- 53) = 1 / 2 ^ 53" "(2::real) powi (- 52) = 1 / 2 ^ 52"
    by (simp_all only: power_int_minus_divide power_int_numeral)
  have d1: "\<bar>p - (phi + T)\<bar> \<le> \<bar>phi + T\<bar> * (1 / 2 ^ 53) + t"
    using rval_err_rel [of "phi + T"] unfolding p_def t_def h .
  have e0: "\<bar>rval (phi + Math_PI) - (phi + Math_PI)\<bar> \<le> \<bar>phi + Math_PI\<bar> * (1 / 2 ^ 53) + t"
    using rval_err_rel [of "phi + Math_PI"] unfolding t_def h .
  have e1: "\<bar>rval (p + Math_PI) - (p + Math_PI)\<bar> \<le> \<bar>p + Math_PI\<bar> * (1 / 2 ^ 53) + t"
    using rval_err_rel [of "p + Math_PI"] unfolding t_def h .
  have s1: "\<bar>phi + T\<bar> \<le> \<bar>phi\<bar> + 8" "\<bar>phi + Math_PI\<bar> \<le> \<bar>phi\<bar> + 4"
    using T Math_PI_bounds by linarith+
  have s2: "\<bar>p - (phi + T)\<bar> \<le> \<bar>phi\<bar> * (1 / 2 ^ 53) + 1 / 2 ^ 49"
    using d1 s1(1) t by simp
  have s3: "\<bar>p + Math_PI\<bar> \<le> \<bar>phi\<bar> * (1 + 1 / 2 ^ 53) + 13"
    using s2 s1(1) Math_PI_bounds by simp
  have s4: "\<bar>r - (phi + of_int k * T)\<bar> \<le> \<bar>phi\<bar> * (1 / 2 ^ 53) + 4 / 2 ^ 53 + t + 5 / 2 ^ 52"
    using rk(2) e0 s1(2) unfolding h by simp
  have "\<bar>p + Math_PI\<bar> * (1 / 2 ^ 53) \<le> (\<bar>phi\<bar> * (1 + 1 / 2 ^ 53) + 13) * (1 / 2 ^ 53)"
    using s3 by (intro mult_right_mono) simp_all
  then have s5: "\<bar>r' - (p + of_int k' * T)\<bar>
      \<le> (\<bar>phi\<bar> * (1 + 1 / 2 ^ 53) + 13) * (1 / 2 ^ 53) + t + 5 / 2 ^ 52"
    using rk'(2) e1 unfolding h by linarith
  have alg: "r' - (r + of_int (k' - k + 1) * T)
      = (r' - (p + of_int k' * T)) - (r - (phi + of_int k * T)) + (p - (phi + T))"
    by (simp add: algebra_simps)
  have "\<bar>r' - (r + of_int (k' - k + 1) * T)\<bar>
      \<le> \<bar>r' - (p + of_int k' * T)\<bar> + \<bar>r - (phi + of_int k * T)\<bar> + \<bar>p - (phi + T)\<bar>"
    unfolding alg by linarith
  also have "\<dots> \<le> \<bar>phi\<bar> * (1 / 2 ^ 51) + 1 / 2 ^ 47"
    using abs_ge_zero [of phi] s2 s4 s5 t by (rule bound_arith)
  finally have "\<bar>r' - (r + of_int (k' - k + 1) * (2 * Math_PI))\<bar>
      \<le> \<bar>phi\<bar> * 2 powi (- 51) + 2 powi (- 47)"
    unfolding T_def by (simp only: power_int_minus_divide power_int_numeral)
  then show ?thesis using add rk(1) rk'(1) by blast
qed

text \<open>
  C3 as stated fails in its second half: \<open>normalizePhase(phi + 2 * Math.PI)\<close> is not
  \<open>normalizePhase(phi)\<close> at \<open>phi = 3.141592653589794\<close>, where the first is
  \<open>+3.141592653589793\<close> and the second \<open>-3.1415926535897922\<close>.
\<close>

theorem normalizePhase_not_periodic:
  "normalizePhase (Num (3537118876014221 / 2 ^ 50)) = Num (- (3537118876014219 / 2 ^ 50))
   \<and> jsAdd (Num (3537118876014221 / 2 ^ 50)) (jsMul (Num 2) (Num Math_PI))
        = Num (2652839157010665 / 2 ^ 48)
   \<and> normalizePhase (jsAdd (Num (3537118876014221 / 2 ^ 50)) (jsMul (Num 2) (Num Math_PI)))
        = Num Math_PI
   \<and> normalizePhase (jsAdd (Num (3537118876014221 / 2 ^ 50)) (jsMul (Num 2) (Num Math_PI)))
        \<noteq> normalizePhase (Num (3537118876014221 / 2 ^ 50))"
  by (simp only: normalizePhase_at_phi0 phi0_plus_tau normalizePhase_at_phi0_plus_tau)
     (simp add: Math_PI_def)

text \<open>
  C3, amended: for every finite \<open>phi\<close>, \<open>normalizePhase(phi)\<close> is a finite number in the
  half-open interval \<open>(-Math.PI, Math.PI]\<close> (a value that wraps exactly to \<open>-Math.PI\<close> is
  returned as \<open>+Math.PI\<close>, as for \<open>phi = -Math.PI\<close>), and \<open>normalizePhase(phi + 2 *
  Math.PI)\<close> equals \<open>normalizePhase(phi)\<close> modulo \<open>2 * Math.PI\<close> up to rounding: the two
  differ by a multiple of \<open>2 * Math.PI\<close> and an error of at most \<open>2^-51 * |phi| + 2^-47\<close>.
\<close>

theorem normalizePhase_range_near_periodic:
  "(\<bar>phi\<bar> \<le> MAX_VALUE \<longrightarrow>
      (\<exists>r. normalizePhase (Num phi) = Num r \<and> - Math_PI < r \<and> r \<le> Math_PI))
   \<and> normalizePhase (Num (- Math_PI)) = Num Math_PI
   \<and> (\<bar>phi\<bar> \<le> MAX_VALUE \<longrightarrow>
      (\<exists>p r r' k. jsAdd (Num phi) (jsMul (Num 2) (Num Math_PI)) = Num p
         \<and> normalizePhase (Num phi) = Num r \<and> normalizePhase (Num p) = Num r'
         \<and> \<bar>r' - (r + of_int k * (2 * Math_PI))\<bar> \<le> \<bar>phi\<bar> * 2 powi (- 51) + 2 powi (- 47)))"
proof (intro conjI impI)
  assume "\<bar>phi\<bar> \<le> MAX_VALUE"
  then show "\<exists>r. normalizePhase (Num phi) = Num r \<and> - Math_PI < r \<and> r \<le> Math_PI"
    using normalizePhase_master [of phi] by blast
next
  show "normalizePhase (Num (- Math_PI)) = Num Math_PI" by (rule normalizePhase_at_minus_PI)
next
  assume "\<bar>phi\<bar> \<le> MAX_VALUE"
  then show "\<exists>p r r' k. jsAdd (Num phi) (jsMul (Num 2) (Num Math_PI)) = Num p
         \<and> normalizePhase (Num phi) = Num r \<and> normalizePhase (Num p) = Num r'
         \<and> \<bar>r' - (r + of_int k * (2 * Math_PI))\<bar> \<le> \<bar>phi\<bar> * 2 powi (- 51) + 2 powi (- 47)"
    by (rule normalizePhase_near_periodic)
qed

theorem normalizePhase_range_near_periodic_witness:
  "\<bar>1\<bar> \<le> MAX_VALUE
   \<and> (\<exists>r. normalizePhase (Num 1) = Num r \<and> - Math_PI < r \<and> r \<le> Math_PI)
   \<and> (\<exists>p r r' k. jsAdd (Num 1) (jsMul (Num 2) (Num Math_PI)) = Num p
         \<and> normalizePhase (Num 1) = Num r \<and> normalizePhase (Num p) = Num r'
         \<and> \<bar>r' - (r + of_int k * (2 * Math_PI))\<bar> \<le> \<bar>1\<bar> * 2 powi (- 51) + 2 powi (- 47))"
proof -
  have h: "\<bar>1\<bar> \<le> MAX_VALUE" by (simp add: MAX_VALUE_def)
  show ?thesis using h normalizePhase_range_near_periodic [of 1] by blast
qed




end
